theory Spec2Isabelle
  imports Complex_Main "HOL-Library.Word" "HOL-Library.AList"
begin

section \<open>Machine integers and constants\<close>

text \<open>
  \<^verbatim>\<open>size_t\<close> is modelled as a 64-bit word, so that the sentinel \<^verbatim>\<open>(size_t)(-1)\<close> of
  the source is the word \<open>- 1\<close> and \<^verbatim>\<open>curFaceId++\<close> wraps as the hardware does.
  A \<^verbatim>\<open>double\<close> is idealised as a real number; the one non-number that the model keeps
  is the result of arithmetic on the unset vector, written \<open>None\<close> (it compares false
  with everything, as a NaN does).
\<close>

type_synonym size_t = "64 word"

type_synonym dbl = "real option"

text \<open>
  The header \<^verbatim>\<open>convex_hull.h\<close> is not part of the sources at hand. The two macros it
  supplies to \<^verbatim>\<open>convex_hull.cpp\<close> are parameters of the model.
\<close>

record params =
  PLANE_DIST_TOL :: real
  DBL_MAX_VAL :: real

definition dbl_gt :: "dbl \<Rightarrow> real \<Rightarrow> bool" where
  "dbl_gt d r = (case d of None \<Rightarrow> False | Some x \<Rightarrow> x > r)"

definition dbl_lt :: "dbl \<Rightarrow> real \<Rightarrow> bool" where
  "dbl_lt d r = (case d of None \<Rightarrow> False | Some x \<Rightarrow> x < r)"

section \<open>Vector algebra\<close>

text \<open>
  Modelled from the spec: the type \<^verbatim>\<open>vec3\<close> and its operations, declared in the absent
  header. A vector is a triple of coordinates or the distinguished unset value, which is
  distinct from every triple; \<^verbatim>\<open>unit()\<close> of a vector of length zero is the unset value;
  every operation on the unset value yields the unset value (or no number).
\<close>

datatype vec3 = Unset | Vec real real real

definition vec3_zero :: vec3 where
  "vec3_zero = Vec 0 0 0"

fun vec3_is_valid :: "vec3 \<Rightarrow> bool" where
  "vec3_is_valid Unset = False"
| "vec3_is_valid (Vec x y z) = True"

fun vsub :: "vec3 \<Rightarrow> vec3 \<Rightarrow> vec3" where
  "vsub (Vec x y z) (Vec x' y' z') = Vec (x - x') (y - y') (z - z')"
| "vsub _ _ = Unset"

fun vadd :: "vec3 \<Rightarrow> vec3 \<Rightarrow> vec3" where
  "vadd (Vec x y z) (Vec x' y' z') = Vec (x + x') (y + y') (z + z')"
| "vadd _ _ = Unset"

fun vdiv :: "vec3 \<Rightarrow> real \<Rightarrow> vec3" where
  "vdiv (Vec x y z) k = Vec (x / k) (y / k) (z / k)"
| "vdiv Unset k = Unset"

fun vscale :: "vec3 \<Rightarrow> dbl \<Rightarrow> vec3" where
  "vscale (Vec x y z) (Some k) = Vec (x * k) (y * k) (z * k)"
| "vscale _ _ = Unset"

fun dot :: "vec3 \<Rightarrow> vec3 \<Rightarrow> dbl" where
  "dot (Vec x y z) (Vec x' y' z') = Some (x * x' + y * y' + z * z')"
| "dot _ _ = None"

fun cross :: "vec3 \<Rightarrow> vec3 \<Rightarrow> vec3" where
  "cross (Vec x y z) (Vec x' y' z') = Vec (y * z' - z * y') (z * x' - x * z') (x * y' - y * x')"
| "cross _ _ = Unset"

fun len_sq :: "vec3 \<Rightarrow> dbl" where
  "len_sq (Vec x y z) = Some (x * x + y * y + z * z)"
| "len_sq Unset = None"

fun unit :: "vec3 \<Rightarrow> vec3" where
  "unit (Vec x y z) =
     (if x * x + y * y + z * z = 0 then Unset
      else Vec (x / sqrt (x * x + y * y + z * z)) (y / sqrt (x * x + y * y + z * z))
               (z / sqrt (x * x + y * y + z * z)))"
| "unit Unset = Unset"

fun reverse :: "vec3 \<Rightarrow> vec3" where
  "reverse (Vec x y z) = Vec (- x) (- y) (- z)"
| "reverse Unset = Unset"

fun copy :: "vec3 \<Rightarrow> dbl list" where
  "copy (Vec x y z) = [Some x, Some y, Some z]"
| "copy Unset = [None, None, None]"

definition dbl_abs :: "dbl \<Rightarrow> dbl" where
  "dbl_abs d = map_option abs d"

section \<open>Adjacency pair\<close>

text \<open>
  Modelled from the spec: \<^verbatim>\<open>index_pair\<close>, declared in the absent header. Two slots
  \<open>p\<close> and \<open>q\<close>, the sentinel \<open>- 1\<close> in an empty slot. As a map key the pair is unordered:
  \<open>pair_key\<close> is its canonical form.
\<close>

record index_pair =
  pair_p :: size_t
  pair_q :: size_t

definition index_pair :: "size_t \<Rightarrow> size_t \<Rightarrow> index_pair" where
  "index_pair i j = \<lparr>pair_p = i, pair_q = j\<rparr>"

definition index_pair_default :: index_pair where
  "index_pair_default = index_pair (- 1) (- 1)"

definition pair_key :: "index_pair \<Rightarrow> size_t \<times> size_t" where
  "pair_key e = (if pair_p e \<le> pair_q e then (pair_p e, pair_q e) else (pair_q e, pair_p e))"

definition pair_contains :: "index_pair \<Rightarrow> size_t \<Rightarrow> bool" where
  "pair_contains e v = (pair_p e = v \<or> pair_q e = v)"

definition pair_unset :: "index_pair \<Rightarrow> size_t \<Rightarrow> index_pair" where
  "pair_unset e v =
     (if pair_p e = v then e\<lparr>pair_p := - 1\<rparr>
      else if pair_q e = v then e\<lparr>pair_q := - 1\<rparr>
      else e)"

text \<open>\<open>pair_add\<close> returns the flag of \<^verbatim>\<open>add\<close> and the pair as it is afterwards.\<close>

definition pair_add :: "index_pair \<Rightarrow> size_t \<Rightarrow> bool \<times> index_pair" where
  "pair_add e v =
     (if pair_p e = - 1 then (True, e\<lparr>pair_p := v\<rparr>)
      else if pair_q e = - 1 then (True, e\<lparr>pair_q := v\<rparr>)
      else (False, e))"

section \<open>Hull faces\<close>

text \<open>
  The fields \<^verbatim>\<open>id, a, b, c, normal\<close> of \<^verbatim>\<open>hull_face\<close> carry the prefix \<open>face_\<close> here.
\<close>

record hull_face =
  face_id :: size_t
  face_a :: size_t
  face_b :: size_t
  face_c :: size_t
  face_normal :: vec3

text \<open>\<^verbatim>\<open>hull_face(idVal, v1, v2, v3)\<close>: the normal starts unset.\<close>

definition hull_face :: "size_t \<Rightarrow> size_t \<Rightarrow> size_t \<Rightarrow> size_t \<Rightarrow> hull_face" where
  "hull_face idVal v1 v2 v3 =
     \<lparr>face_id = idVal, face_a = v1, face_b = v2, face_c = v3, face_normal = Unset\<rparr>"

definition hull_face_unset :: hull_face where
  "hull_face_unset = hull_face (- 1) (- 1) (- 1) (- 1)"

text \<open>
  \<^verbatim>\<open>hull_face()\<close> leaves the normal to the default constructor of \<^verbatim>\<open>vec3\<close>, which the
  sources at hand do not show; such a face is never valid and its normal is never read.
\<close>

definition hull_face_default :: hull_face where
  "hull_face_default = hull_face (- 1) (- 1) (- 1) (- 1)"

definition is_valid :: "hull_face \<Rightarrow> bool" where
  "is_valid f = (face_id f \<noteq> - 1 \<and> face_a f \<noteq> - 1 \<and> face_b f \<noteq> - 1 \<and> face_c f \<noteq> - 1)"

definition flip :: "hull_face \<Rightarrow> hull_face" where
  "flip f = f\<lparr>face_b := face_c f, face_c := face_b f, face_normal := reverse (face_normal f)\<rparr>"

definition edge :: "hull_face \<Rightarrow> nat \<Rightarrow> string + index_pair" where
  "edge f edgeIndex =
     (if edgeIndex = 0 then Inr (index_pair (face_a f) (face_b f))
      else if edgeIndex = 1 then Inr (index_pair (face_b f) (face_c f))
      else if edgeIndex = 2 then Inr (index_pair (face_c f) (face_a f))
      else Inl ''Invalid edge index.'')"

definition contains_vertex :: "hull_face \<Rightarrow> size_t \<Rightarrow> bool" where
  "contains_vertex f vi = (vi = - 1 \<and> (vi = face_a f \<or> vi = face_b f \<or> vi = face_c f))"

section \<open>The hull under construction\<close>

record convex_hull =
  m_pts :: "vec3 list"
  m_nPts :: size_t
  m_outsidePts :: "size_t list"
  m_faces :: "(size_t \<times> hull_face) list"
  m_edgeFaceMap :: "((size_t \<times> size_t) \<times> index_pair) list"
  m_center :: vec3


text \<open>
  The containers (\<^verbatim>\<open>m_outsidePts\<close>, \<^verbatim>\<open>m_faces\<close>, \<^verbatim>\<open>m_edgeFaceMap\<close>) are declared in the
  absent header. The set is kept as a list without duplicates and the maps as association
  lists with one entry for each key; each is traversed in list order. No theorem below
  depends on that order.
\<close>

definition set_insert :: "size_t \<Rightarrow> size_t list \<Rightarrow> size_t list" where
  "set_insert i xs = (if i \<in> set xs then xs else xs @ [i])"

definition set_erase :: "size_t list \<Rightarrow> size_t \<Rightarrow> size_t list" where
  "set_erase xs i = removeAll i xs"

subsection \<open>Lookups\<close>

text \<open>
  \<^verbatim>\<open>get_face\<close> and \<^verbatim>\<open>get_edge_faces\<close> return \<open>Some\<close> of the value they write through their
  reference parameter when they return true, and \<open>None\<close> when they return false and leave
  it alone.
\<close>

definition get_face :: "convex_hull \<Rightarrow> size_t \<Rightarrow> hull_face option" where
  "get_face s i = map_of (m_faces s) i"

definition get_edge_faces :: "convex_hull \<Rightarrow> index_pair \<Rightarrow> index_pair option" where
  "get_edge_faces s e = map_of (m_edgeFaceMap s) (pair_key e)"

text \<open>
  \<^verbatim>\<open>m_pts[i]\<close> is \<open>pt_at s i\<close>. Reading a vector out of range is undefined behaviour in the
  source and is left unspecified here (\<open>!\<close>); no theorem below rests on such a read.
\<close>

definition pt_at :: "convex_hull \<Rightarrow> size_t \<Rightarrow> vec3" where
  "pt_at s i = m_pts s ! unat i"

definition get_pt :: "convex_hull \<Rightarrow> size_t \<Rightarrow> vec3" where
  "get_pt s index = (if index > m_nPts s - 1 then Unset else pt_at s index)"

definition num_faces :: "convex_hull \<Rightarrow> nat" where
  "num_faces s = length (m_faces s)"

subsection \<open>Visibility\<close>

definition face_plane_dist :: "convex_hull \<Rightarrow> hull_face \<Rightarrow> vec3 \<Rightarrow> dbl" where
  "face_plane_dist s f pt = dot (vsub pt (pt_at s (face_a f))) (face_normal f)"

definition face_visible :: "params \<Rightarrow> convex_hull \<Rightarrow> hull_face \<Rightarrow> vec3 \<Rightarrow> bool" where
  "face_visible K s f pt =
     (if vec3_is_valid (face_normal f) then dbl_gt (face_plane_dist s f pt) (PLANE_DIST_TOL K)
      else False)"

subsection \<open>The farthest outside point of a face\<close>

text \<open>
  The accumulator of the loop is \<open>(dMax, ptIndex, pt)\<close>; the result is the returned flag
  with the two reference parameters \<open>pt\<close> and \<open>ptIndex\<close>.
\<close>

definition farthest_step ::
  "convex_hull \<Rightarrow> hull_face \<Rightarrow> real \<times> size_t \<times> vec3 \<Rightarrow> size_t \<Rightarrow> real \<times> size_t \<times> vec3" where
  "farthest_step s f acc i =
     (if contains_vertex f i then acc
      else (case face_plane_dist s f (pt_at s i) of
              None \<Rightarrow> acc
            | Some d \<Rightarrow> if d > fst acc then (d, i, pt_at s i) else acc))"

definition get_farthest_pt :: "params \<Rightarrow> convex_hull \<Rightarrow> hull_face \<Rightarrow> bool \<times> vec3 \<times> size_t" where
  "get_farthest_pt K s f =
     (case foldl (farthest_step s f) (PLANE_DIST_TOL K, - 1, Unset) (m_outsidePts s) of
        (dMax, ptIndex, pt) \<Rightarrow> (ptIndex \<noteq> - 1, pt, ptIndex))"

subsection \<open>Updating the outside set after a cavity flood\<close>

text \<open>
  \<open>popped_scan\<close> is the inner loop over the popped faces for one outside point; it
  returns (pushed to \<^verbatim>\<open>remove\<close>, \<^verbatim>\<open>outside\<close>). \<open>any_visible\<close> is the inner loop over the new
  faces; it returns \<^verbatim>\<open>outside\<close>.
\<close>

fun popped_scan :: "params \<Rightarrow> convex_hull \<Rightarrow> size_t \<Rightarrow> hull_face list \<Rightarrow> bool \<times> bool" where
  "popped_scan K s opi [] = (False, False)"
| "popped_scan K s opi (face # faces) =
     (if contains_vertex face opi then (True, False)
      else if face_visible K s face (pt_at s opi) then (False, True)
      else popped_scan K s opi faces)"

fun any_visible :: "params \<Rightarrow> convex_hull \<Rightarrow> hull_face list \<Rightarrow> vec3 \<Rightarrow> bool" where
  "any_visible K s [] testPt = False"
| "any_visible K s (newFace # faces) testPt =
     (if face_visible K s newFace testPt then True else any_visible K s faces testPt)"

text \<open>
  The two outer loops: the first fills \<^verbatim>\<open>remove\<close> and \<^verbatim>\<open>check\<close>, the second extends
  \<^verbatim>\<open>remove\<close>.
\<close>

definition exterior_scan_step ::
  "params \<Rightarrow> convex_hull \<Rightarrow> hull_face list \<Rightarrow> size_t list \<times> size_t list \<Rightarrow> size_t
   \<Rightarrow> size_t list \<times> size_t list" where
  "exterior_scan_step K s poppedFaces acc opi =
     (case popped_scan K s opi poppedFaces of
        (removed, outside) \<Rightarrow>
          (if removed then fst acc @ [opi] else fst acc,
           if outside then snd acc @ [opi] else snd acc))"

definition exterior_check_step ::
  "params \<Rightarrow> convex_hull \<Rightarrow> hull_face list \<Rightarrow> size_t list \<Rightarrow> size_t \<Rightarrow> size_t list" where
  "exterior_check_step K s newFaces remove ci =
     (if \<not> any_visible K s newFaces (pt_at s ci) then remove @ [ci] else remove)"

definition update_exterior_pts ::
  "params \<Rightarrow> convex_hull \<Rightarrow> hull_face list \<Rightarrow> hull_face list \<Rightarrow> convex_hull" where
  "update_exterior_pts K s newFaces poppedFaces =
     (case foldl (exterior_scan_step K s poppedFaces) ([], []) (m_outsidePts s) of
        (remove, check) \<Rightarrow>
          s\<lparr>m_outsidePts :=
              foldl set_erase (m_outsidePts s)
                (foldl (exterior_check_step K s newFaces) remove check)\<rparr>)"

subsection \<open>Registering and removing faces\<close>

text \<open>
  A thrown string is \<open>Inl\<close> of the message together with the hull as it is when the
  exception leaves the member function.
\<close>

type_synonym 'a result = "(string \<times> convex_hull) + 'a"

definition face_with_normal :: "convex_hull \<Rightarrow> hull_face \<Rightarrow> hull_face" where
  "face_with_normal s face =
     face\<lparr>face_normal :=
       unit (cross (vsub (pt_at s (face_b face)) (pt_at s (face_a face)))
                   (vsub (pt_at s (face_c face)) (pt_at s (face_a face))))\<rparr>"

definition oriented :: "params \<Rightarrow> convex_hull \<Rightarrow> hull_face \<Rightarrow> hull_face" where
  "oriented K s face =
     (if face_visible K s (face_with_normal s face) (m_center s)
      then flip (face_with_normal s face) else face_with_normal s face)"

fun add_face_edges :: "convex_hull \<Rightarrow> hull_face \<Rightarrow> nat list \<Rightarrow> convex_hull result" where
  "add_face_edges s face [] = Inr s"
| "add_face_edges s face (ei # eis) =
     (case edge face ei of
        Inl msg \<Rightarrow> Inl (msg, s)
      | Inr e \<Rightarrow>
          (let slot = (case map_of (m_edgeFaceMap s) (pair_key e) of
                         None \<Rightarrow> index_pair_default | Some fp \<Rightarrow> fp);
               added = pair_add slot (face_id face);
               s' = s\<lparr>m_edgeFaceMap := AList.update (pair_key e) (snd added) (m_edgeFaceMap s)\<rparr>
           in if fst added then add_face_edges s' face eis
              else Inl (''Failed to add face to the edge map.'', s')))"

text \<open>\<open>set_face\<close> returns the hull and the face as the reference parameter holds it afterwards.\<close>

definition set_face :: "params \<Rightarrow> convex_hull \<Rightarrow> hull_face \<Rightarrow> (convex_hull \<times> hull_face) result" where
  "set_face K s face =
     (let face' = oriented K s face;
          s' = s\<lparr>m_faces := AList.update (face_id face') face' (m_faces s)\<rparr>
      in case add_face_edges s' face' [0, 1, 2] of
           Inl e \<Rightarrow> Inl e
         | Inr s'' \<Rightarrow> Inr (s'', face'))"

text \<open>
  \<open>pop_face_edges\<close> is the loop over the three edges of the removed face; the arrays
  \<^verbatim>\<open>edges\<close> and \<^verbatim>\<open>adjFaces\<close> of the caller are lists of length three.
\<close>

fun pop_face_edges ::
  "convex_hull \<Rightarrow> size_t \<Rightarrow> hull_face \<Rightarrow> nat list \<Rightarrow> index_pair list \<Rightarrow> hull_face list
   \<Rightarrow> (convex_hull \<times> index_pair list \<times> hull_face list) result" where
  "pop_face_edges s i face [] edges adjFaces = Inr (s, edges, adjFaces)"
| "pop_face_edges s i face (ei # eis) edges adjFaces =
     (case edge face ei of
        Inl msg \<Rightarrow> Inl (msg, s)
      | Inr e \<Rightarrow>
          (case get_edge_faces s e of
             None \<Rightarrow> pop_face_edges s i face eis (edges[ei := e]) (adjFaces[ei := hull_face_unset])
           | Some fPair \<Rightarrow>
               if \<not> pair_contains fPair i
               then pop_face_edges s i face eis (edges[ei := e]) (adjFaces[ei := hull_face_unset])
               else
                 (let fPair' = pair_unset fPair i;
                      s' = s\<lparr>m_edgeFaceMap := AList.update (pair_key e) fPair' (m_edgeFaceMap s)\<rparr>;
                      adjFid = (if pair_p fPair' = - 1 then pair_q fPair' else pair_p fPair')
                  in pop_face_edges s' i face eis (edges[ei := e])
                       (adjFaces[ei := (case get_face s' adjFid of
                                          None \<Rightarrow> hull_face_unset | Some g \<Rightarrow> g)]))))"

definition pop_face ::
  "convex_hull \<Rightarrow> size_t \<Rightarrow> index_pair list \<Rightarrow> hull_face list
   \<Rightarrow> (convex_hull \<times> hull_face \<times> index_pair list \<times> hull_face list) result" where
  "pop_face s i edges adjFaces =
     (case get_face s i of
        None \<Rightarrow> Inr (s, hull_face_default, edges, adjFaces)
      | Some face \<Rightarrow>
          (case pop_face_edges (s\<lparr>m_faces := AList.delete i (m_faces s)\<rparr>) i face [0, 1, 2]
                  edges adjFaces of
             Inl e \<Rightarrow> Inl e
           | Inr (s', edges', adjFaces') \<Rightarrow> Inr (s', face, edges', adjFaces')))"


section \<open>The initial simplex\<close>

text \<open>
  \<open>indices n\<close> lists the values that the loop variable of
  \<^verbatim>\<open>for (size_t i = 0; i < n; i++)\<close> takes.
\<close>

definition indices :: "size_t \<Rightarrow> size_t list" where
  "indices n = map of_nat [0..<unat n]"

text \<open>
  The scan for the six axis-aligned extremes. The accumulator is the pair of arrays
  \<^verbatim>\<open>(extremes, bounds)\<close>.
\<close>

definition extremes_init :: "params \<Rightarrow> real list" where
  "extremes_init K = map (\<lambda>ei. if ei mod 2 = 0 then DBL_MAX_VAL K else - DBL_MAX_VAL K) [0..<6]"

definition extreme_step ::
  "dbl list \<Rightarrow> size_t \<Rightarrow> real list \<times> size_t list \<Rightarrow> nat \<Rightarrow> real list \<times> size_t list" where
  "extreme_step coords ptI acc ei =
     (case coords ! (ei div 2) of
        None \<Rightarrow> acc
      | Some v \<Rightarrow>
          if ei mod 2 = 0 \<and> fst acc ! ei > v then ((fst acc)[ei := v], (snd acc)[ei := ptI])
          else if ei mod 2 = 1 \<and> fst acc ! ei < v then ((fst acc)[ei := v], (snd acc)[ei := ptI])
          else acc)"

definition bounds_step ::
  "convex_hull \<Rightarrow> real list \<times> size_t list \<Rightarrow> size_t \<Rightarrow> real list \<times> size_t list" where
  "bounds_step s acc ptI = foldl (extreme_step (copy (pt_at s ptI)) ptI) acc [0..<6]"

definition find_bounds :: "params \<Rightarrow> convex_hull \<Rightarrow> size_t list" where
  "find_bounds K s =
     snd (foldl (bounds_step s) (extremes_init K, replicate 6 (- 1)) (indices (m_nPts s)))"

text \<open>
  The search for the two extremes farthest apart. The accumulator is
  \<^verbatim>\<open>(maxD, best[0], best[1])\<close>. The array \<^verbatim>\<open>best\<close> is not initialised in the source; the
  model starts its entries at the sentinel, and they are read only after the check of
  \<^verbatim>\<open>maxD\<close> that follows each search.
\<close>

definition bound_pairs :: "(nat \<times> nat) list" where
  "bound_pairs = concat (map (\<lambda>i. map (\<lambda>j. (i, j)) [i + 1..<6]) [0..<6])"

definition pair_step ::
  "convex_hull \<Rightarrow> size_t list \<Rightarrow> real \<times> size_t \<times> size_t \<Rightarrow> nat \<times> nat \<Rightarrow> real \<times> size_t \<times> size_t" where
  "pair_step s bounds acc ij =
     (case len_sq (vsub (pt_at s (bounds ! fst ij)) (pt_at s (bounds ! snd ij))) of
        None \<Rightarrow> acc
      | Some d \<Rightarrow> if d > fst acc then (d, bounds ! fst ij, bounds ! snd ij) else acc)"

definition farthest_pair :: "params \<Rightarrow> convex_hull \<Rightarrow> size_t list \<Rightarrow> real \<times> size_t \<times> size_t" where
  "farthest_pair K s bounds = foldl (pair_step s bounds) (- DBL_MAX_VAL K, - 1, - 1) bound_pairs"

text \<open>The point farthest from the line through \<^verbatim>\<open>best[0]\<close> and \<^verbatim>\<open>best[1]\<close>.\<close>

definition line_step ::
  "convex_hull \<Rightarrow> vec3 \<Rightarrow> vec3 \<Rightarrow> real \<times> size_t \<Rightarrow> size_t \<Rightarrow> real \<times> size_t" where
  "line_step s ref uDir acc ptI =
     (case len_sq (vsub (vsub (pt_at s ptI) ref) (vscale uDir (dot uDir (vsub (pt_at s ptI) ref)))) of
        None \<Rightarrow> acc
      | Some d \<Rightarrow> if d > fst acc then (d, ptI) else acc)"

definition farthest_from_line ::
  "params \<Rightarrow> convex_hull \<Rightarrow> size_t \<Rightarrow> size_t \<Rightarrow> real \<times> size_t" where
  "farthest_from_line K s b0 b1 =
     foldl (line_step s (pt_at s b0) (unit (vsub (pt_at s b1) (pt_at s b0))))
       (- DBL_MAX_VAL K, - 1) (indices (m_nPts s))"

text \<open>The point farthest from the plane through \<^verbatim>\<open>best[0]\<close>, \<^verbatim>\<open>best[1]\<close> and \<^verbatim>\<open>best[2]\<close>.\<close>

definition plane_step ::
  "convex_hull \<Rightarrow> vec3 \<Rightarrow> vec3 \<Rightarrow> real \<times> size_t \<Rightarrow> size_t \<Rightarrow> real \<times> size_t" where
  "plane_step s ref uDir acc ptI =
     (case dbl_abs (dot uDir (vsub (pt_at s ptI) ref)) of
        None \<Rightarrow> acc
      | Some d \<Rightarrow> if d > fst acc then (d, ptI) else acc)"

definition farthest_from_plane ::
  "params \<Rightarrow> convex_hull \<Rightarrow> size_t \<Rightarrow> size_t \<Rightarrow> size_t \<Rightarrow> real \<times> size_t" where
  "farthest_from_plane K s b0 b1 b2 =
     foldl (plane_step s (pt_at s b0)
              (unit (cross (vsub (pt_at s b1) (pt_at s b0)) (vsub (pt_at s b2) (pt_at s b0)))))
       (- DBL_MAX_VAL K, - 1) (indices (m_nPts s))"

text \<open>
  The three searches, each with the check of \<^verbatim>\<open>maxD\<close> that follows it, and the choice of
  the four vertices \<^verbatim>\<open>best[0..3]\<close>.
\<close>

definition choose_pair :: "params \<Rightarrow> convex_hull \<Rightarrow> (size_t \<times> size_t) result" where
  "choose_pair K s =
     (case farthest_pair K s (find_bounds K s) of
        (maxD, b0, b1) \<Rightarrow>
          if maxD \<le> 0 then Inl (''Failed to create the initial simplex'', s) else Inr (b0, b1))"

definition choose_third :: "params \<Rightarrow> convex_hull \<Rightarrow> size_t \<Rightarrow> size_t \<Rightarrow> size_t result" where
  "choose_third K s b0 b1 =
     (case farthest_from_line K s b0 b1 of
        (maxD, b2) \<Rightarrow>
          if maxD \<le> 0 then Inl (''Failed to create the initial simplex'', s) else Inr b2)"

definition choose_fourth ::
  "params \<Rightarrow> convex_hull \<Rightarrow> size_t \<Rightarrow> size_t \<Rightarrow> size_t \<Rightarrow> size_t result" where
  "choose_fourth K s b0 b1 b2 =
     (case farthest_from_plane K s b0 b1 b2 of
        (maxD, b3) \<Rightarrow>
          if maxD \<le> 0 then Inl (''Failed to create the initial simplex'', s) else Inr b3)"

definition choose_simplex :: "params \<Rightarrow> convex_hull \<Rightarrow> size_t list result" where
  "choose_simplex K s =
     (if m_nPts s < 4 then Inl (''Failed to create the initial simplex'', s)
      else if m_nPts s = 4 then Inr [0, 1, 2, 3]
      else
        (case choose_pair K s of
           Inl e \<Rightarrow> Inl e
         | Inr (b0, b1) \<Rightarrow>
             (case choose_third K s b0 b1 of
                Inl e \<Rightarrow> Inl e
              | Inr b2 \<Rightarrow>
                  (case choose_fourth K s b0 b1 b2 of
                     Inl e \<Rightarrow> Inl e
                   | Inr b3 \<Rightarrow> Inr [b0, b1, b2, b3]))))"

definition simplex_faces :: "size_t \<Rightarrow> size_t list \<Rightarrow> hull_face list" where
  "simplex_faces faceIndex best =
     [hull_face faceIndex (best ! 0) (best ! 1) (best ! 2),
      hull_face (faceIndex + 1) (best ! 0) (best ! 2) (best ! 3),
      hull_face (faceIndex + 2) (best ! 1) (best ! 2) (best ! 3),
      hull_face (faceIndex + 3) (best ! 0) (best ! 1) (best ! 3)]"

definition simplex_center :: "convex_hull \<Rightarrow> size_t list \<Rightarrow> vec3" where
  "simplex_center s best = vdiv (foldl vadd vec3_zero (map (pt_at s) best)) 4"

text \<open>
  The loop that registers the valid simplex faces; it returns the array \<^verbatim>\<open>simplex\<close> as
  \<open>set_face\<close> leaves it.
\<close>

fun set_simplex_faces ::
  "params \<Rightarrow> convex_hull \<Rightarrow> hull_face list \<Rightarrow> (convex_hull \<times> hull_face list) result" where
  "set_simplex_faces K s [] = Inr (s, [])"
| "set_simplex_faces K s (f # fs) =
     (if \<not> is_valid f
      then (case set_simplex_faces K s fs of
              Inl e \<Rightarrow> Inl e
            | Inr (s', fs') \<Rightarrow> Inr (s', f # fs'))
      else (case set_face K s f of
              Inl e \<Rightarrow> Inl e
            | Inr (s1, f1) \<Rightarrow>
                (case set_simplex_faces K s1 fs of
                   Inl e \<Rightarrow> Inl e
                 | Inr (s', fs') \<Rightarrow> Inr (s', f1 # fs'))))"

text \<open>
  The inner loop of the pruning for one outside point; it returns (pushed to
  \<^verbatim>\<open>removePts\<close> by the vertex branch, \<^verbatim>\<open>outside\<close>).
\<close>

fun simplex_scan :: "params \<Rightarrow> convex_hull \<Rightarrow> size_t \<Rightarrow> hull_face list \<Rightarrow> bool \<times> bool" where
  "simplex_scan K s opi [] = (False, False)"
| "simplex_scan K s opi (face # faces) =
     (if contains_vertex face opi then (True, False)
      else if face_visible K s face (get_pt s opi) then (False, True)
      else simplex_scan K s opi faces)"

definition simplex_prune_step ::
  "params \<Rightarrow> convex_hull \<Rightarrow> hull_face list \<Rightarrow> size_t list \<Rightarrow> size_t \<Rightarrow> size_t list" where
  "simplex_prune_step K s simplex removePts opi =
     (case simplex_scan K s opi simplex of
        (hit, outside) \<Rightarrow>
          (if hit then removePts @ [opi] else removePts) @ (if \<not> outside then [opi] else []))"

definition simplex_remove_pts :: "params \<Rightarrow> convex_hull \<Rightarrow> hull_face list \<Rightarrow> size_t list" where
  "simplex_remove_pts K s simplex = foldl (simplex_prune_step K s simplex) [] (m_outsidePts s)"

text \<open>
  \<open>create_initial_simplex\<close> returns the hull and the counter \<^verbatim>\<open>faceIndex\<close>, its reference
  parameter, as it is afterwards.
\<close>

definition create_initial_simplex ::
  "params \<Rightarrow> convex_hull \<Rightarrow> size_t \<Rightarrow> (convex_hull \<times> size_t) result" where
  "create_initial_simplex K s faceIndex =
     (case choose_simplex K s of
        Inl e \<Rightarrow> Inl e
      | Inr best \<Rightarrow>
          (case set_simplex_faces K (s\<lparr>m_center := simplex_center s best\<rparr>)
                  (simplex_faces faceIndex best) of
             Inl e \<Rightarrow> Inl e
           | Inr (s', simplex) \<Rightarrow>
               Inr (s'\<lparr>m_outsidePts :=
                         foldl set_erase (m_outsidePts s') (simplex_remove_pts K s' simplex)\<rparr>,
                    faceIndex + 4)))"

section \<open>The main loop\<close>

text \<open>
  The loop over the three neighbours of a popped face. The accumulator is the pair
  \<^verbatim>\<open>(popQ, horizonEdges)\<close>.
\<close>

definition adjacent_step ::
  "params \<Rightarrow> convex_hull \<Rightarrow> vec3 \<Rightarrow> index_pair list \<Rightarrow> hull_face list
   \<Rightarrow> size_t list \<times> index_pair list \<Rightarrow> nat \<Rightarrow> size_t list \<times> index_pair list" where
  "adjacent_step K s farPt edges adjFaces acc i =
     (if \<not> is_valid (adjFaces ! i) then acc
      else if face_visible K s (adjFaces ! i) farPt then (fst acc @ [face_id (adjFaces ! i)], snd acc)
      else (fst acc, snd acc @ [edges ! i]))"

text \<open>
  One turn of the loop \<^verbatim>\<open>while (!popQ.empty())\<close>, for a queue \<open>fi # popQ\<close>. The state of
  the loop is the hull with \<^verbatim>\<open>popQ\<close>, \<^verbatim>\<open>poppedFaces\<close>, \<^verbatim>\<open>horizonEdges\<close>, \<^verbatim>\<open>edges\<close> and
  \<^verbatim>\<open>adjFaces\<close>.
\<close>

type_synonym flood_state =
  "convex_hull \<times> size_t list \<times> hull_face list \<times> index_pair list \<times> index_pair list \<times> hull_face list"

definition flood_step ::
  "params \<Rightarrow> vec3 \<Rightarrow> convex_hull \<Rightarrow> size_t \<Rightarrow> size_t list \<Rightarrow> hull_face list \<Rightarrow> index_pair list
   \<Rightarrow> index_pair list \<Rightarrow> hull_face list \<Rightarrow> flood_state result" where
  "flood_step K farPt s fi popQ poppedFaces horizonEdges edges adjFaces =
     (case pop_face s fi edges adjFaces of
        Inl e \<Rightarrow> Inl e
      | Inr (s', pFace, edges', adjFaces') \<Rightarrow>
          if \<not> is_valid pFace then Inr (s', popQ, poppedFaces, horizonEdges, edges', adjFaces')
          else
            (case foldl (adjacent_step K s' farPt edges' adjFaces') (popQ, horizonEdges) [0, 1, 2] of
               (popQ', horizonEdges') \<Rightarrow>
                 Inr (s', popQ', poppedFaces @ [pFace], horizonEdges', edges', adjFaces')))"

function flood ::
  "params \<Rightarrow> vec3 \<Rightarrow> flood_state \<Rightarrow> (convex_hull \<times> hull_face list \<times> index_pair list) result" where
  "flood K farPt (s, popQ, poppedFaces, horizonEdges, edges, adjFaces) =
     (case popQ of
        [] \<Rightarrow> Inr (s, poppedFaces, horizonEdges)
      | fi # rest \<Rightarrow>
          (case flood_step K farPt s fi rest poppedFaces horizonEdges edges adjFaces of
             Inl e \<Rightarrow> Inl e
           | Inr st \<Rightarrow> flood K farPt st))"
  by pat_completeness auto


text \<open>
  The flood ends: a turn either removes a face from the registry or leaves the registry
  as it is and shortens the queue.
\<close>

lemma pop_face_edges_faces:
  "pop_face_edges s i face eis edges adj = Inr (s', edges', adj') \<Longrightarrow> m_faces s' = m_faces s"
proof (induction eis arbitrary: s edges adj)
  case Nil
  then show ?case by simp
next
  case (Cons ei eis)
  then show ?case
    by (auto simp: Let_def split: sum.splits option.splits if_splits)
qed

lemma length_delete_less:
  "map_of xs i = Some v \<Longrightarrow> length (AList.delete i xs) < length xs"
  by (induction xs) (auto simp: less_Suc_eq_le AList.delete_eq intro: le_trans[OF length_filter_le])

lemma pop_face_cases:
  assumes "pop_face s i edges adj = Inr (s', pFace, edges', adj')"
  shows "(get_face s i = None \<and> s' = s \<and> pFace = hull_face_default) \<or>
         (get_face s i = Some pFace \<and> m_faces s' = AList.delete i (m_faces s))"
  using assms
  by (auto simp: pop_face_def simp del: pop_face_edges.simps split: option.splits sum.splits
        dest!: pop_face_edges_faces)

lemma is_valid_default: "\<not> is_valid hull_face_default"
  by (simp add: is_valid_def hull_face_default_def hull_face_def)

lemma flood_step_decreases:
  assumes "flood_step K farPt s fi popQ popped hes edges adj = Inr (s', popQ', popped', hes', edges', adj')"
  shows "length (m_faces s') < length (m_faces s) \<or>
         (length (m_faces s') = length (m_faces s) \<and> popQ' = popQ)"
  using assms
  by (auto simp: flood_step_def get_face_def is_valid_default split: sum.splits prod.splits if_splits
           dest!: pop_face_cases intro: length_delete_less)

termination flood
proof (relation "inv_image (less_than <*lex*> less_than)
          (\<lambda>(K, farPt, s, popQ, rest). (length (m_faces s), length popQ))")
  show "wf (inv_image (less_than <*lex*> less_than)
          (\<lambda>(K, farPt, s, popQ, rest). (length (m_faces (s::convex_hull)), length (popQ:: size_t list))))"
    by (intro wf_inv_image wf_lex_prod wf_less_than)
next
  fix K farPt s popQ poppedFaces horizonEdges edges adjFaces fi rest st
  assume "popQ = fi # rest"
    and "flood_step K farPt s fi rest poppedFaces horizonEdges edges adjFaces = Inr st"
  then show "((K, farPt, st), (K, farPt, s, popQ, poppedFaces, horizonEdges, edges, adjFaces))
     \<in> inv_image (less_than <*lex*> less_than)
          (\<lambda>(K, farPt, s, popQ, rest). (length (m_faces s), length popQ))"
    by (cases st) (auto dest!: flood_step_decreases)
qed

declare flood.simps [simp del]

text \<open>
  The loop over the horizon edges: each new face takes the next value of the counter
  \<^verbatim>\<open>curFaceId\<close> and is registered by \<open>set_face\<close>. It returns the hull, the counter and
  \<^verbatim>\<open>newFaces\<close>; the ids pushed to \<^verbatim>\<open>faceQ\<close> are the ids of \<^verbatim>\<open>newFaces\<close>, in order.
\<close>

fun new_faces ::
  "params \<Rightarrow> convex_hull \<Rightarrow> size_t \<Rightarrow> size_t \<Rightarrow> index_pair list
   \<Rightarrow> (convex_hull \<times> size_t \<times> hull_face list) result" where
  "new_faces K s curFaceId fpi [] = Inr (s, curFaceId, [])"
| "new_faces K s curFaceId fpi (he # hes) =
     (case set_face K s (hull_face curFaceId fpi (pair_p he) (pair_q he)) of
        Inl e \<Rightarrow> Inl e
      | Inr (s', newFace) \<Rightarrow>
          (case new_faces K s' (curFaceId + 1) fpi hes of
             Inl e \<Rightarrow> Inl e
           | Inr (s'', curFaceId', newFaces) \<Rightarrow> Inr (s'', curFaceId', newFace # newFaces)))"

text \<open>
  One turn of the loop \<^verbatim>\<open>while (!faceQ.empty())\<close>. The state of the loop is the hull with
  \<^verbatim>\<open>faceQ\<close> and \<^verbatim>\<open>curFaceId\<close>. The arrays \<^verbatim>\<open>edges\<close> and \<^verbatim>\<open>adjFaces\<close> keep their values
  from one turn to the next in the source; they are written by \<open>pop_face\<close> before every
  read, so each flood starts here from default entries.
\<close>

type_synonym loop_state = "convex_hull \<times> size_t list \<times> size_t"

definition compute_iter :: "params \<Rightarrow> loop_state \<Rightarrow> loop_state result" where
  "compute_iter K st =
     (case st of
        (s, faceQ, curFaceId) \<Rightarrow>
          (case faceQ of
             [] \<Rightarrow> Inr st
           | fi # rest \<Rightarrow>
               (case get_face s fi of
                  None \<Rightarrow> Inr (s, rest, curFaceId)
                | Some curFace \<Rightarrow>
                    (case get_farthest_pt K s curFace of
                       (found, farPt, fpi) \<Rightarrow>
                         if \<not> found then Inr (s, rest, curFaceId)
                         else
                           (case flood K farPt
                                   (s, [fi], [], [], replicate 3 index_pair_default,
                                    replicate 3 hull_face_default) of
                              Inl e \<Rightarrow> Inl e
                            | Inr (s1, poppedFaces, horizonEdges) \<Rightarrow>
                                (case new_faces K s1 curFaceId fpi horizonEdges of
                                   Inl e \<Rightarrow> Inl e
                                 | Inr (s2, curFaceId', newFaces) \<Rightarrow>
                                     Inr (update_exterior_pts K s2 newFaces poppedFaces,
                                          rest @ map face_id newFaces, curFaceId')))))))"

text \<open>
  The main loop may run for ever; \<open>compute_loop\<close> is \<open>None\<close> then. \<open>compute_iters K k\<close>
  is the state of the loop after at most \<open>k\<close> turns.
\<close>

partial_function (option) compute_loop :: "params \<Rightarrow> loop_state \<Rightarrow> convex_hull result option" where
  "compute_loop K st =
     (if fst (snd st) = [] then Some (Inr (fst st))
      else (case compute_iter K st of
              Inl e \<Rightarrow> Some (Inl e)
            | Inr st' \<Rightarrow> compute_loop K st'))"

primrec compute_iters :: "params \<Rightarrow> nat \<Rightarrow> loop_state \<Rightarrow> loop_state result" where
  "compute_iters K 0 st = Inr st"
| "compute_iters K (Suc k) st =
     (if fst (snd st) = [] then Inr st
      else (case compute_iter K st of
              Inl e \<Rightarrow> Inl e
            | Inr st' \<Rightarrow> compute_iters K k st'))"

definition compute_start :: "params \<Rightarrow> convex_hull \<Rightarrow> loop_state result" where
  "compute_start K s =
     (case create_initial_simplex K s 0 of
        Inl e \<Rightarrow> Inl e
      | Inr (s', curFaceId) \<Rightarrow> Inr (s', map fst (m_faces s'), curFaceId))"

definition compute :: "params \<Rightarrow> convex_hull \<Rightarrow> convex_hull result option" where
  "compute K s =
     (case compute_start K s of
        Inl e \<Rightarrow> Some (Inl e)
      | Inr st \<Rightarrow> compute_loop K st)"

section \<open>The constructor and the entry point\<close>

text \<open>
  \<open>convex_hull_init\<close> is the constructor up to its call of \<^verbatim>\<open>compute()\<close>. The members that
  the constructor does not set are empty containers; \<^verbatim>\<open>m_center\<close> is written by
  \<open>create_initial_simplex\<close> before it is read.
\<close>

definition convex_hull_init :: "real list \<Rightarrow> size_t \<Rightarrow> convex_hull" where
  "convex_hull_init coords nPts =
     \<lparr>m_pts = map (\<lambda>i. Vec (coords ! (3 * i)) (coords ! (3 * i + 1)) (coords ! (3 * i + 2)))
                [0..<unat nPts],
      m_nPts = nPts,
      m_outsidePts = foldl (\<lambda>xs i. set_insert i xs) [] (indices nPts),
      m_faces = [],
      m_edgeFaceMap = [],
      m_center = Unset\<rparr>"

definition convex_hull_ctor :: "params \<Rightarrow> real list \<Rightarrow> size_t \<Rightarrow> convex_hull result option" where
  "convex_hull_ctor K coords nPts = compute K (convex_hull_init coords nPts)"

text \<open>\<^verbatim>\<open>(int)\<close> of a \<^verbatim>\<open>size_t\<close> keeps the low 32 bits, read as a signed number.\<close>

definition int_cast :: "size_t \<Rightarrow> int" where
  "int_cast v = sint (ucast v :: 32 word)"

definition copy_faces :: "convex_hull \<Rightarrow> int list" where
  "copy_faces s =
     concat (map (\<lambda>kv. [int_cast (face_a (snd kv)), int_cast (face_b (snd kv)),
                         int_cast (face_c (snd kv))]) (m_faces s))"

text \<open>
  The entry point returns \<open>Inr (faceIndices, nFaces)\<close> when it writes its two outputs,
  and the exception when the constructor throws; it writes nothing then.
\<close>

definition ConvexHull_Create ::
  "params \<Rightarrow> real list \<Rightarrow> size_t \<Rightarrow> (int list \<times> int) result option" where
  "ConvexHull_Create K coords nPts =
     (case convex_hull_ctor K coords nPts of
        None \<Rightarrow> None
      | Some (Inl e) \<Rightarrow> Some (Inl e)
      | Some (Inr ch) \<Rightarrow>
          Some (Inr (copy_faces ch, int_cast (of_nat (num_faces ch)))))"


section \<open>Concrete inputs\<close>

text \<open>
  The inputs at which the theorems below are exercised. \<open>test_params\<close> fixes the two
  macros at a tolerance of one millionth and a bound of \<open>10 ^ 30\<close>.
\<close>

definition test_params :: params where
  "test_params = \<lparr>PLANE_DIST_TOL = 1 / 1000000, DBL_MAX_VAL = 10 ^ 30\<rparr>"

definition tetra_pts :: "vec3 list" where
  "tetra_pts = [Vec 0 0 0, Vec 2 0 0, Vec 0 1 0, Vec 0 0 1]"

definition tetra_hull :: convex_hull where
  "tetra_hull = \<lparr>m_pts = tetra_pts, m_nPts = 4, m_outsidePts = [1], m_faces = [],
     m_edgeFaceMap = [], m_center = Vec (1 / 2) (1 / 4) (1 / 4)\<rparr>"

text \<open>
  The five points are the corners of a triangle in the plane \<open>z = 0\<close> with one point
  above it and one below. The initial simplex takes the first four; the fifth is outside
  the face in the plane, and one turn of the main loop replaces that face by three.
\<close>

definition bipyr_coords :: "real list" where
  "bipyr_coords = [- 3, 0, 0, 3, 0, 0, 0, 4, 0, 0, 0, 1, 0, 0, - 1]"

definition bipyr_pts :: "vec3 list" where
  "bipyr_pts = [Vec (- 3) 0 0, Vec 3 0 0, Vec 0 4 0, Vec 0 0 1, Vec 0 0 (- 1)]"

definition bipyr_init :: convex_hull where
  "bipyr_init = \<lparr>m_pts = bipyr_pts, m_nPts = 5, m_outsidePts = [0, 1, 2, 3, 4], m_faces = [],
     m_edgeFaceMap = [], m_center = Unset\<rparr>"

definition bipyr_faces4 :: "hull_face list" where
  "bipyr_faces4 =
     [\<lparr>face_id = 0, face_a = 0, face_b = 2, face_c = 1, face_normal = Vec 0 0 (- 1)\<rparr>,
      \<lparr>face_id = 1, face_a = 0, face_b = 3, face_c = 2,
         face_normal = Vec (- (4 / 13)) (3 / 13) (12 / 13)\<rparr>,
      \<lparr>face_id = 2, face_a = 1, face_b = 2, face_c = 3,
         face_normal = Vec (4 / 13) (3 / 13) (12 / 13)\<rparr>,
      \<lparr>face_id = 3, face_a = 0, face_b = 1, face_c = 3, face_normal = Vec 0 (- 1) 0\<rparr>]"

definition bipyr_new_faces :: "hull_face list" where
  "bipyr_new_faces =
     [\<lparr>face_id = 4, face_a = 4, face_b = 0, face_c = 2,
         face_normal = Vec (- (4 / 13)) (3 / 13) (- (12 / 13))\<rparr>,
      \<lparr>face_id = 5, face_a = 4, face_b = 2, face_c = 1,
         face_normal = Vec (4 / 13) (3 / 13) (- (12 / 13))\<rparr>,
      \<lparr>face_id = 6, face_a = 4, face_b = 1, face_c = 0, face_normal = Vec 0 (- 1) 0\<rparr>]"

definition bipyr_seeded :: "size_t list \<Rightarrow> convex_hull" where
  "bipyr_seeded outside =
     \<lparr>m_pts = bipyr_pts, m_nPts = 5, m_outsidePts = outside,
      m_faces = map (\<lambda>f. (face_id f, f)) bipyr_faces4,
      m_edgeFaceMap =
        [((0, 2), \<lparr>pair_p = 0, pair_q = 1\<rparr>), ((1, 2), \<lparr>pair_p = 0, pair_q = 2\<rparr>),
         ((0, 1), \<lparr>pair_p = 0, pair_q = 3\<rparr>), ((0, 3), \<lparr>pair_p = 1, pair_q = 3\<rparr>),
         ((2, 3), \<lparr>pair_p = 1, pair_q = 2\<rparr>), ((1, 3), \<lparr>pair_p = 2, pair_q = 3\<rparr>)],
      m_center = Vec 0 1 (1 / 4)\<rparr>"

definition bipyr_flooded :: convex_hull where
  "bipyr_flooded =
     \<lparr>m_pts = bipyr_pts, m_nPts = 5, m_outsidePts = [4],
      m_faces = map (\<lambda>f. (face_id f, f)) (tl bipyr_faces4),
      m_edgeFaceMap =
        [((0, 2), \<lparr>pair_p = - 1, pair_q = 1\<rparr>), ((1, 2), \<lparr>pair_p = - 1, pair_q = 2\<rparr>),
         ((0, 1), \<lparr>pair_p = - 1, pair_q = 3\<rparr>), ((0, 3), \<lparr>pair_p = 1, pair_q = 3\<rparr>),
         ((2, 3), \<lparr>pair_p = 1, pair_q = 2\<rparr>), ((1, 3), \<lparr>pair_p = 2, pair_q = 3\<rparr>)],
      m_center = Vec 0 1 (1 / 4)\<rparr>"

definition bipyr_grown :: "size_t list \<Rightarrow> convex_hull" where
  "bipyr_grown outside =
     \<lparr>m_pts = bipyr_pts, m_nPts = 5, m_outsidePts = outside,
      m_faces = map (\<lambda>f. (face_id f, f)) (tl bipyr_faces4 @ bipyr_new_faces),
      m_edgeFaceMap =
        [((0, 2), \<lparr>pair_p = 4, pair_q = 1\<rparr>), ((1, 2), \<lparr>pair_p = 5, pair_q = 2\<rparr>),
         ((0, 1), \<lparr>pair_p = 6, pair_q = 3\<rparr>), ((0, 3), \<lparr>pair_p = 1, pair_q = 3\<rparr>),
         ((2, 3), \<lparr>pair_p = 1, pair_q = 2\<rparr>), ((1, 3), \<lparr>pair_p = 2, pair_q = 3\<rparr>),
         ((0, 4), \<lparr>pair_p = 4, pair_q = 6\<rparr>), ((2, 4), \<lparr>pair_p = 4, pair_q = 5\<rparr>),
         ((1, 4), \<lparr>pair_p = 5, pair_q = 6\<rparr>)],
      m_center = Vec 0 1 (1 / 4)\<rparr>"

section \<open>Vertex membership\<close>

lemma popped_scan_no_vertex:
  "opi \<noteq> - 1 \<Longrightarrow> fst (popped_scan K s opi faces) = False"
  by (induction faces) (auto simp: contains_vertex_def)

lemma lt_not_sentinel: "(vi :: size_t) < n \<Longrightarrow> vi \<noteq> - 1"
  by (metis word_order.extremum_strict)

text \<open>
  C9. \<open>contains_vertex f vi\<close> holds only when \<open>vi\<close> is the sentinel \<open>(size_t)(-1)\<close> and
  the sentinel is one of the vertices of the face. For an index of a point (an index
  below \<open>m_nPts\<close>) it is false, so the step of \<open>get_farthest_pt\<close> never takes its skip
  branch and the scan of the popped faces in \<open>update_exterior_pts\<close> never takes its
  removal branch.
\<close>

theorem contains_vertex_sentinel_only:
  "(contains_vertex f vi \<longleftrightarrow>
      vi = - 1 \<and> (face_a f = - 1 \<or> face_b f = - 1 \<or> face_c f = - 1)) \<and>
   (vi < m_nPts s \<longrightarrow>
      \<not> contains_vertex f vi \<and>
      farthest_step s f acc vi =
        (case face_plane_dist s f (pt_at s vi) of
           None \<Rightarrow> acc
         | Some d \<Rightarrow> if d > fst acc then (d, vi, pt_at s vi) else acc) \<and>
      fst (popped_scan K s vi faces) = False)"
  using lt_not_sentinel[of vi "m_nPts s"]
  by (auto simp: contains_vertex_def farthest_step_def popped_scan_no_vertex)

theorem contains_vertex_sentinel_only_witness:
  "(1 :: size_t) < m_nPts tetra_hull \<and>
   \<not> contains_vertex (hull_face 0 0 1 2) 1 \<and>
   fst (popped_scan test_params tetra_hull 1 [hull_face 0 0 1 2]) = False"
  using contains_vertex_sentinel_only[of "hull_face 0 0 1 2" 1 tetra_hull "(0, 0, Unset)"
          test_params "[hull_face 0 0 1 2]"]
  by (simp add: tetra_hull_def)

section \<open>Visibility of a face\<close>

text \<open>
  C5. \<open>face_visible K s f pt\<close> holds exactly when the normal of the face is valid and the
  signed plane distance, the dot product of \<open>pt - a\<close> with the normal, is strictly above
  \<open>PLANE_DIST_TOL\<close>. A face whose normal is the unset value is visible from no point; the
  function has no error result.
\<close>

theorem face_visible_iff:
  "(face_visible K s f pt \<longleftrightarrow>
      vec3_is_valid (face_normal f) \<and>
      dbl_gt (dot (vsub pt (pt_at s (face_a f))) (face_normal f)) (PLANE_DIST_TOL K)) \<and>
   face_plane_dist s f pt = dot (vsub pt (pt_at s (face_a f))) (face_normal f) \<and>
   \<not> face_visible K s (f\<lparr>face_normal := Unset\<rparr>) pt"
  by (simp add: face_visible_def face_plane_dist_def)

section \<open>Fewer than four points\<close>

lemma compute_fails:
  "m_nPts s < 4 \<Longrightarrow> compute K s = Some (Inl (''Failed to create the initial simplex'', s))"
  by (simp add: compute_def compute_start_def create_initial_simplex_def choose_simplex_def)

lemma init_fields:
  "m_nPts (convex_hull_init coords nPts) = nPts"
  "m_faces (convex_hull_init coords nPts) = []"
  "m_edgeFaceMap (convex_hull_init coords nPts) = []"
  "m_pts (convex_hull_init coords nPts) =
     map (\<lambda>i. Vec (coords ! (3 * i)) (coords ! (3 * i + 1)) (coords ! (3 * i + 2))) [0..<unat nPts]"
  by (simp_all add: convex_hull_init_def)

text \<open>
  C7. With fewer than four points the constructor throws
  \<open>''Failed to create the initial simplex''\<close> as its first action: the hull that the
  exception leaves behind is the one the constructor set up, with an empty face registry
  and an empty edge map, and the entry point returns the exception and writes no output.
\<close>

theorem too_few_points_fail:
  "nPts < 4 \<Longrightarrow>
     convex_hull_ctor K coords nPts =
       Some (Inl (''Failed to create the initial simplex'', convex_hull_init coords nPts)) \<and>
     m_faces (convex_hull_init coords nPts) = [] \<and>
     m_edgeFaceMap (convex_hull_init coords nPts) = [] \<and>
     ConvexHull_Create K coords nPts =
       Some (Inl (''Failed to create the initial simplex'', convex_hull_init coords nPts))"
  by (simp add: ConvexHull_Create_def convex_hull_ctor_def compute_fails init_fields)

theorem too_few_points_fail_witness:
  "(3 :: size_t) < 4 \<and>
   ConvexHull_Create test_params [0, 0, 0, 1, 0, 0, 0, 1, 0] 3 =
     Some (Inl (''Failed to create the initial simplex'',
                convex_hull_init [0, 0, 0, 1, 0, 0, 0, 1, 0] 3)) \<and>
   m_faces (convex_hull_init [0, 0, 0, 1, 0, 0, 0, 1, 0] 3) = []"
  using too_few_points_fail[of 3 test_params "[0, 0, 0, 1, 0, 0, 0, 1, 0]"]
  by simp

section \<open>A run on five points\<close>

text \<open>
  The steps of the construction on \<open>bipyr_coords\<close>, evaluated one after the other: the
  choice of the simplex, the four seed faces, the pruning, and the first two turns of the
  main loop.
\<close>

lemma sqrt_36: "sqrt 36 = 6"
  using real_sqrt_abs[of 6] by simp

lemma sqrt_169: "sqrt 169 = 13"
  using real_sqrt_abs[of 13] by simp

lemma sqrt_576: "sqrt 576 = 24"
  using real_sqrt_abs[of 24] by simp

lemma upt_5: "[0..<5] = [0, 1, 2, 3, 4]"
  by (simp add: upt_rec)

lemma upt_6: "[0..<6] = [0, 1, 2, 3, 4, 5]"
  by (simp add: upt_rec)

lemma replicate_6: "replicate 6 x = [x, x, x, x, x, x]"
  by (simp add: numeral_eq_Suc)

lemma replicate_3: "replicate 3 x = [x, x, x]"
  by (simp add: numeral_eq_Suc)

lemmas face_eval =
  set_face_def oriented_def face_with_normal_def pt_at_def hull_face_def face_visible_def
  face_plane_dist_def dbl_gt_def flip_def edge_def index_pair_def pair_key_def pair_add_def
  index_pair_default_def is_valid_def Let_def test_params_def word_le_nat_alt word_less_nat_alt
  sqrt_36 sqrt_169 sqrt_576

lemma bipyr_init_eq: "convex_hull_init bipyr_coords 5 = bipyr_init"
  by (simp add: convex_hull_init_def bipyr_coords_def bipyr_pts_def indices_def upt_5
        set_insert_def bipyr_init_def)

lemma bipyr_bounds: "find_bounds test_params bipyr_init = [0, 1, 0, 2, 4, 3]"
  by (simp add: find_bounds_def bounds_step_def bipyr_init_def bipyr_pts_def indices_def upt_5
        upt_6 extremes_init_def extreme_step_def pt_at_def test_params_def replicate_6)

lemma bipyr_pair: "farthest_pair test_params bipyr_init [0, 1, 0, 2, 4, 3] = (36, 0, 1)"
  by (simp add: farthest_pair_def bound_pairs_def upt_rec pair_step_def bipyr_init_def
        bipyr_pts_def pt_at_def test_params_def)

lemma bipyr_third: "farthest_from_line test_params bipyr_init 0 1 = (16, 2)"
  by (simp add: farthest_from_line_def line_step_def bipyr_init_def bipyr_pts_def pt_at_def
        test_params_def indices_def upt_5 sqrt_36)

lemma bipyr_fourth: "farthest_from_plane test_params bipyr_init 0 1 2 = (1, 3)"
  by (simp add: farthest_from_plane_def plane_step_def bipyr_init_def bipyr_pts_def pt_at_def
        test_params_def indices_def upt_5 sqrt_576 dbl_abs_def)

lemma bipyr_nPts: "m_nPts bipyr_init = 5"
  by (simp add: bipyr_init_def)

lemma bipyr_choose: "choose_simplex test_params bipyr_init = Inr [0, 1, 2, 3]"
  by (simp add: choose_simplex_def choose_pair_def choose_third_def choose_fourth_def
        bipyr_bounds bipyr_pair bipyr_third bipyr_fourth bipyr_nPts word_less_nat_alt)

lemma bipyr_set_simplex:
  "set_simplex_faces test_params (bipyr_init\<lparr>m_center := simplex_center bipyr_init [0, 1, 2, 3]\<rparr>)
     (simplex_faces 0 [0, 1, 2, 3]) = Inr (bipyr_seeded [0, 1, 2, 3, 4], bipyr_faces4)"
  by (simp add: simplex_faces_def simplex_center_def bipyr_seeded_def bipyr_faces4_def
        vec3_zero_def bipyr_init_def bipyr_pts_def face_eval)

lemma bipyr_prune:
  "simplex_remove_pts test_params (bipyr_seeded [0, 1, 2, 3, 4]) bipyr_faces4 = [0, 1, 2, 3]"
  by (simp add: simplex_remove_pts_def simplex_prune_step_def bipyr_seeded_def bipyr_faces4_def
        bipyr_pts_def get_pt_def contains_vertex_def face_visible_def face_plane_dist_def
        pt_at_def dbl_gt_def test_params_def word_less_nat_alt)

lemma bipyr_simplex: "create_initial_simplex test_params bipyr_init 0 = Inr (bipyr_seeded [4], 4)"
  by (simp add: create_initial_simplex_def bipyr_choose bipyr_set_simplex bipyr_prune)
     (simp add: bipyr_seeded_def set_erase_def)

lemma bipyr_start:
  "compute_start test_params (convex_hull_init bipyr_coords 5) = Inr (bipyr_seeded [4], [0, 1, 2, 3], 4)"
  by (simp add: compute_start_def bipyr_init_eq bipyr_simplex)
     (simp add: bipyr_seeded_def bipyr_faces4_def)

lemma bipyr_face0:
  "get_face (bipyr_seeded [4]) 0 = Some (bipyr_faces4 ! 0)"
  by (simp add: get_face_def bipyr_seeded_def bipyr_faces4_def)

lemma bipyr_farthest:
  "get_farthest_pt test_params (bipyr_seeded [4]) (bipyr_faces4 ! 0) = (True, Vec 0 0 (- 1), 4)"
  by (simp add: get_farthest_pt_def farthest_step_def bipyr_seeded_def bipyr_faces4_def
        bipyr_pts_def contains_vertex_def face_plane_dist_def pt_at_def test_params_def)

lemma bipyr_flood:
  "flood test_params (Vec 0 0 (- 1))
     (bipyr_seeded [4], [0], [], [], replicate 3 index_pair_default, replicate 3 hull_face_default) =
   Inr (bipyr_flooded, [bipyr_faces4 ! 0], [index_pair 0 2, index_pair 2 1, index_pair 1 0])"
  by (simp add: flood_step_def pop_face_def get_face_def get_edge_faces_def adjacent_step_def
        pair_contains_def pair_unset_def hull_face_unset_def hull_face_default_def replicate_3
        bipyr_seeded_def bipyr_flooded_def bipyr_faces4_def bipyr_pts_def face_eval flood.simps)

lemma bipyr_new:
  "new_faces test_params bipyr_flooded 4 4 [index_pair 0 2, index_pair 2 1, index_pair 1 0] =
   Inr (bipyr_grown [4], 7, bipyr_new_faces)"
  by (simp add: bipyr_flooded_def bipyr_grown_def bipyr_new_faces_def bipyr_faces4_def
        bipyr_pts_def face_eval)

lemma bipyr_update:
  "update_exterior_pts test_params (bipyr_grown [4]) bipyr_new_faces [bipyr_faces4 ! 0] =
   bipyr_grown []"
  by (simp add: update_exterior_pts_def exterior_scan_step_def exterior_check_step_def
        bipyr_grown_def bipyr_new_faces_def bipyr_faces4_def bipyr_pts_def contains_vertex_def
        face_visible_def face_plane_dist_def pt_at_def dbl_gt_def test_params_def set_erase_def)

lemma bipyr_turn1:
  "compute_iter test_params (bipyr_seeded [4], [0, 1, 2, 3], 4) =
   Inr (bipyr_grown [], [1, 2, 3, 4, 5, 6], 7)"
  unfolding compute_iter_def
  by (simp only: prod.case list.case option.case sum.case simp_thms if_False bipyr_face0
        bipyr_farthest bipyr_flood bipyr_new bipyr_update)
     (simp add: bipyr_new_faces_def)

lemma bipyr_turn2:
  "compute_iter test_params (bipyr_grown [], [1, 2, 3, 4, 5, 6], 7) =
   Inr (bipyr_grown [], [2, 3, 4, 5, 6], 7)"
  by (simp add: compute_iter_def get_face_def get_farthest_pt_def bipyr_grown_def bipyr_faces4_def)

section \<open>The outside set only shrinks\<close>

lemma unat_of_nat_below:
  "k < unat (n :: size_t) \<Longrightarrow> unat (of_nat k :: size_t) = k"
proof -
  assume "k < unat n"
  moreover have "unat n < 2 ^ 64" using unsigned_less[of n] by simp
  ultimately have "k < 2 ^ 64" by simp
  then show ?thesis by (simp add: unat_of_nat)
qed

lemma of_nat_below: "k < unat (n :: size_t) \<Longrightarrow> (of_nat k :: size_t) < n"
  by (simp add: word_less_nat_alt unat_of_nat_below)

lemma set_foldl_erase: "set (foldl set_erase xs rs) = set xs - set rs"
  by (induction rs arbitrary: xs) (auto simp: set_erase_def)

lemma update_exterior_subset:
  "set (m_outsidePts (update_exterior_pts K s nf pf)) \<subseteq> set (m_outsidePts s)"
  by (auto simp: update_exterior_pts_def set_foldl_erase split: prod.splits)

lemma add_face_edges_frame:
  "add_face_edges s f eis = Inr s' \<Longrightarrow>
     m_outsidePts s' = m_outsidePts s \<and> m_pts s' = m_pts s \<and> m_nPts s' = m_nPts s \<and>
     m_center s' = m_center s \<and> m_faces s' = m_faces s"
proof (induction eis arbitrary: s)
  case Nil
  then show ?case by simp
next
  case (Cons ei eis)
  then show ?case
    by (fastforce simp: Let_def split: sum.splits if_splits)
qed

lemma set_face_frame:
  assumes "set_face K s f = Inr (s', f')"
  shows "m_outsidePts s' = m_outsidePts s \<and> m_pts s' = m_pts s \<and> m_nPts s' = m_nPts s \<and>
         m_center s' = m_center s"
  using assms
  by (auto simp: set_face_def Let_def simp del: add_face_edges.simps split: sum.splits
        dest!: add_face_edges_frame)

lemma set_simplex_faces_frame:
  "set_simplex_faces K s fs = Inr (s', fs') \<Longrightarrow>
     m_outsidePts s' = m_outsidePts s \<and> m_pts s' = m_pts s \<and> m_nPts s' = m_nPts s \<and>
     m_center s' = m_center s"
proof (induction fs arbitrary: s s' fs')
  case Nil
  then show ?case by simp
next
  case (Cons f fs)
  show ?case
  proof (cases "is_valid f")
    case False
    with Cons.prems obtain fs'' where "set_simplex_faces K s fs = Inr (s', fs'')"
      by (auto split: sum.splits)
    then show ?thesis by (rule Cons.IH)
  next
    case True
    with Cons.prems obtain s1 f1 fs'' where
      a: "set_face K s f = Inr (s1, f1)" and b: "set_simplex_faces K s1 fs = Inr (s', fs'')"
      by (auto split: sum.splits)
    from set_face_frame[OF a] Cons.IH[OF b] show ?thesis by simp
  qed
qed

lemma create_initial_simplex_subset:
  assumes "create_initial_simplex K s fi = Inr (s', fi')"
  shows "set (m_outsidePts s') \<subseteq> set (m_outsidePts s)"
proof -
  from assms obtain best s1 simplex where
    a: "set_simplex_faces K (s\<lparr>m_center := simplex_center s best\<rparr>) (simplex_faces fi best) = Inr (s1, simplex)"
    and b: "s' = s1\<lparr>m_outsidePts := foldl set_erase (m_outsidePts s1) (simplex_remove_pts K s1 simplex)\<rparr>"
    by (auto simp: create_initial_simplex_def split: sum.splits)
  from set_simplex_faces_frame[OF a] have "m_outsidePts s1 = m_outsidePts s" by simp
  with b show ?thesis by (auto simp: set_foldl_erase)
qed

lemma pop_face_edges_frame:
  "pop_face_edges s i face eis edges adj = Inr (s', edges', adj') \<Longrightarrow>
     m_outsidePts s' = m_outsidePts s \<and> m_pts s' = m_pts s \<and> m_nPts s' = m_nPts s \<and>
     m_center s' = m_center s"
proof (induction eis arbitrary: s edges adj)
  case Nil
  then show ?case by simp
next
  case (Cons ei eis)
  then show ?case
    by (fastforce simp: Let_def split: sum.splits option.splits if_splits)
qed

lemma pop_face_frame:
  assumes "pop_face s i edges adj = Inr (s', pFace, edges', adj')"
  shows "m_outsidePts s' = m_outsidePts s \<and> m_pts s' = m_pts s \<and> m_nPts s' = m_nPts s \<and>
         m_center s' = m_center s"
  using assms
  by (auto simp: pop_face_def simp del: pop_face_edges.simps split: option.splits sum.splits
        dest!: pop_face_edges_frame)

lemma flood_step_frame:
  assumes "flood_step K farPt s fi popQ popped hes edges adj = Inr (s', rest)"
  shows "m_outsidePts s' = m_outsidePts s \<and> m_pts s' = m_pts s \<and> m_nPts s' = m_nPts s \<and>
         m_center s' = m_center s"
  using assms
  by (auto simp: flood_step_def split: sum.splits prod.splits if_splits dest!: pop_face_frame)

lemma flood_frame:
  "flood K farPt st = Inr (s', popped', hes') \<Longrightarrow>
     m_outsidePts s' = m_outsidePts (fst st) \<and> m_pts s' = m_pts (fst st) \<and>
     m_nPts s' = m_nPts (fst st) \<and> m_center s' = m_center (fst st)"
proof (induction K farPt st rule: flood.induct)
  case (1 K farPt s popQ poppedFaces horizonEdges edges adjFaces)
  show ?case
  proof (cases popQ)
    case Nil
    with "1.prems" show ?thesis by (simp add: flood.simps)
  next
    case (Cons fi rest)
    with "1.prems" obtain st where
      a: "flood_step K farPt s fi rest poppedFaces horizonEdges edges adjFaces = Inr st"
      and b: "flood K farPt st = Inr (s', popped', hes')"
      by (auto simp: flood.simps split: sum.splits)
    from "1.IH"[OF Cons a b] flood_step_frame[of K farPt s fi rest poppedFaces horizonEdges edges adjFaces "fst st" "snd st"] a
    show ?thesis by simp
  qed
qed

lemma new_faces_frame:
  "new_faces K s cur fpi hes = Inr (s', cur', nfs) \<Longrightarrow>
     m_outsidePts s' = m_outsidePts s \<and> m_pts s' = m_pts s \<and> m_nPts s' = m_nPts s \<and>
     m_center s' = m_center s"
proof (induction hes arbitrary: s cur nfs)
  case Nil
  then show ?case by simp
next
  case (Cons he hes)
  from Cons.prems obtain s1 f1 nfs' where
    a: "set_face K s (hull_face cur fpi (pair_p he) (pair_q he)) = Inr (s1, f1)"
    and b: "new_faces K s1 (cur + 1) fpi hes = Inr (s', cur', nfs')"
    by (auto split: sum.splits)
  from set_face_frame[OF a] Cons.IH[OF b] show ?case by simp
qed

lemma compute_iter_subset:
  assumes "compute_iter K st = Inr st'"
  shows "set (m_outsidePts (fst st')) \<subseteq> set (m_outsidePts (fst st))"
proof -
  obtain s faceQ cur where st: "st = (s, faceQ, cur)" by (cases st)
  show ?thesis
  proof (cases faceQ)
    case Nil
    with assms st show ?thesis by (simp add: compute_iter_def)
  next
    case (Cons fi rest)
    show ?thesis
    proof (cases "get_face s fi")
      case None
      with assms st Cons show ?thesis by (auto simp: compute_iter_def)
    next
      case (Some curFace)
      obtain found farPt fpi where g: "get_farthest_pt K s curFace = (found, farPt, fpi)"
        by (cases "get_farthest_pt K s curFace")
      show ?thesis
      proof (cases found)
        case False
        with assms st Cons Some g show ?thesis by (auto simp: compute_iter_def)
      next
        case True
        with assms st Cons Some g obtain s1 popped hes s2 cur' nfs where
          a: "flood K farPt (s, [fi], [], [], replicate 3 index_pair_default,
                replicate 3 hull_face_default) = Inr (s1, popped, hes)"
          and b: "new_faces K s1 cur fpi hes = Inr (s2, cur', nfs)"
          and c: "st' = (update_exterior_pts K s2 nfs popped, rest @ map face_id nfs, cur')"
          by (auto simp: compute_iter_def split: sum.splits)
        from flood_frame[OF a] new_faces_frame[OF b] have "m_outsidePts s2 = m_outsidePts s"
          by simp
        with c st update_exterior_subset[of K s2 nfs popped] show ?thesis by simp
      qed
    qed
  qed
qed

lemma compute_iters_subset:
  "compute_iters K k st = Inr st' \<Longrightarrow> set (m_outsidePts (fst st')) \<subseteq> set (m_outsidePts (fst st))"
proof (induction k arbitrary: st)
  case 0
  then show ?case by simp
next
  case (Suc k)
  show ?case
  proof (cases "fst (snd st) = []")
    case True
    with Suc.prems show ?thesis by simp
  next
    case False
    with Suc.prems obtain st1 where a: "compute_iter K st = Inr st1"
      and b: "compute_iters K k st1 = Inr st'"
      by (auto split: sum.splits)
    from compute_iter_subset[OF a] Suc.IH[OF b] show ?thesis by blast
  qed
qed

lemma init_outside: "set (m_outsidePts (convex_hull_init coords nPts)) = {i. i < nPts}"
proof -
  have "set (foldl (\<lambda>xs i. set_insert i xs) acc ys) = set acc \<union> set ys" for acc ys
    by (induction ys arbitrary: acc) (auto simp: set_insert_def)
  then have "set (m_outsidePts (convex_hull_init coords nPts)) = set (indices nPts)"
    by (simp add: convex_hull_init_def)
  also have "\<dots> = {i. i < nPts}"
  proof (rule set_eqI)
    fix i :: size_t
    show "i \<in> set (indices nPts) \<longleftrightarrow> i \<in> {i. i < nPts}"
    proof
      assume "i \<in> set (indices nPts)"
      then obtain k where "k < unat nPts" "i = of_nat k" by (auto simp: indices_def)
      then show "i \<in> {i. i < nPts}"
        by (simp add: of_nat_below)
    next
      assume "i \<in> {i. i < nPts}"
      then have "unat i < unat nPts" by (simp add: word_less_nat_alt)
      then have "(of_nat (unat i) :: size_t) \<in> of_nat ` {0..<unat nPts}"
        by (intro imageI) simp
      then show "i \<in> set (indices nPts)" by (simp add: indices_def)
    qed
  qed
  finally show ?thesis .
qed


lemma bipyr_iters1:
  "compute_iters test_params 1 (bipyr_seeded [4], [0, 1, 2, 3], 4) =
   Inr (bipyr_grown [], [1, 2, 3, 4, 5, 6], 7)"
  by (simp add: bipyr_turn1)

lemma bipyr_iters2:
  "compute_iters test_params 1 (bipyr_grown [], [1, 2, 3, 4, 5, 6], 7) =
   Inr (bipyr_grown [], [2, 3, 4, 5, 6], 7)"
  by (simp add: bipyr_turn2)

text \<open>
  C4. The outside set shrinks monotonically over the whole construction. The constructor
  fills it with the indices below \<open>nPts\<close>; the pruning of the initial simplex leaves a
  subset; the state after any number of turns of the main loop holds a subset of the
  state after fewer turns; and every call of \<open>update_exterior_pts\<close> returns a subset of
  the set it is given. So an index that has left the set is never in it again.
\<close>

theorem outside_set_only_shrinks:
  assumes "compute_start K (convex_hull_init coords nPts) = Inr st0"
    and "compute_iters K j st0 = Inr st1"
    and "compute_iters K k st1 = Inr st2"
  shows "set (m_outsidePts (convex_hull_init coords nPts)) = {i. i < nPts} \<and>
         set (m_outsidePts (fst st0)) \<subseteq> set (m_outsidePts (convex_hull_init coords nPts)) \<and>
         set (m_outsidePts (fst st1)) \<subseteq> set (m_outsidePts (fst st0)) \<and>
         set (m_outsidePts (fst st2)) \<subseteq> set (m_outsidePts (fst st1)) \<and>
         set (m_outsidePts (update_exterior_pts K s newFaces poppedFaces)) \<subseteq> set (m_outsidePts s)"
proof -
  from assms(1) obtain s0 cur where
    "create_initial_simplex K (convex_hull_init coords nPts) 0 = Inr (s0, cur)" and "fst st0 = s0"
    by (auto simp: compute_start_def split: sum.splits)
  then have "set (m_outsidePts (fst st0)) \<subseteq> set (m_outsidePts (convex_hull_init coords nPts))"
    using create_initial_simplex_subset by blast
  with init_outside[of coords nPts] compute_iters_subset[OF assms(2)]
    compute_iters_subset[OF assms(3)] update_exterior_subset[of K s newFaces poppedFaces]
  show ?thesis by blast
qed

theorem outside_set_only_shrinks_witness:
  "set (m_outsidePts (convex_hull_init bipyr_coords 5)) = {i. i < 5} \<and>
   set (m_outsidePts (bipyr_seeded [4])) \<subseteq> set (m_outsidePts (convex_hull_init bipyr_coords 5)) \<and>
   set (m_outsidePts (bipyr_grown [])) \<subseteq> set (m_outsidePts (bipyr_seeded [4])) \<and>
   m_outsidePts (bipyr_seeded [4]) = [4] \<and> m_outsidePts (bipyr_grown []) = []"
  using outside_set_only_shrinks[OF bipyr_start bipyr_iters1 bipyr_iters2, of bipyr_init "[]" "[]"]
  by (simp add: bipyr_seeded_def bipyr_grown_def)


section \<open>The farthest point\<close>

lemma farthest_fold:
  assumes "\<forall>j\<in>set xs. \<not> contains_vertex f j"
  shows "fst acc \<le> fst (foldl (farthest_step s f) acc xs) \<and>
         (\<forall>j\<in>set xs. \<not> dbl_gt (face_plane_dist s f (pt_at s j)) (fst (foldl (farthest_step s f) acc xs))) \<and>
         (foldl (farthest_step s f) acc xs = acc \<or>
          (\<exists>i\<in>set xs. \<exists>d. foldl (farthest_step s f) acc xs = (d, i, pt_at s i) \<and>
              face_plane_dist s f (pt_at s i) = Some d \<and> fst acc < d))"
  using assms
proof (induction xs arbitrary: acc)
  case Nil
  then show ?case by simp
next
  case (Cons x xs)
  let ?acc' = "farthest_step s f acc x"
  from Cons.prems have nv: "\<not> contains_vertex f x" and rest: "\<forall>j\<in>set xs. \<not> contains_vertex f j"
    by simp_all
  note IH = Cons.IH[OF rest, of ?acc']
  have step: "fst acc \<le> fst ?acc' \<and> \<not> dbl_gt (face_plane_dist s f (pt_at s x)) (fst ?acc') \<and>
      (?acc' = acc \<or> (\<exists>d. ?acc' = (d, x, pt_at s x) \<and> face_plane_dist s f (pt_at s x) = Some d \<and> fst acc < d))"
    using nv by (auto simp: farthest_step_def dbl_gt_def split: option.splits)
  let ?r = "foldl (farthest_step s f) ?acc' xs"
  have le: "fst acc \<le> fst ?r" using step IH by linarith
  have this_pt: "\<not> dbl_gt (face_plane_dist s f (pt_at s x)) (fst ?r)"
    using step IH by (auto simp: dbl_gt_def split: option.splits)
  have others: "\<forall>j\<in>set xs. \<not> dbl_gt (face_plane_dist s f (pt_at s j)) (fst ?r)"
    using IH by blast
  have origin: "?r = acc \<or> (\<exists>i\<in>set (x # xs). \<exists>d. ?r = (d, i, pt_at s i) \<and>
              face_plane_dist s f (pt_at s i) = Some d \<and> fst acc < d)"
  proof -
    from IH have "?r = ?acc' \<or> (\<exists>i\<in>set xs. \<exists>d. ?r = (d, i, pt_at s i) \<and>
              face_plane_dist s f (pt_at s i) = Some d \<and> fst ?acc' < d)" by blast
    then show ?thesis
    proof
      assume "?r = ?acc'"
      with step show ?thesis by auto
    next
      assume "\<exists>i\<in>set xs. \<exists>d. ?r = (d, i, pt_at s i) \<and>
              face_plane_dist s f (pt_at s i) = Some d \<and> fst ?acc' < d"
      then obtain i d where "i \<in> set xs" "?r = (d, i, pt_at s i)"
        "face_plane_dist s f (pt_at s i) = Some d" "fst ?acc' < d" by blast
      moreover from this step have "fst acc < d" by linarith
      ultimately show ?thesis by auto
    qed
  qed
  from le this_pt others origin show ?case by simp
qed

lemma not_sentinel_not_vertex: "- 1 \<notin> set xs \<Longrightarrow> \<forall>j\<in>set xs. \<not> contains_vertex f j"
  by (auto simp: contains_vertex_def)

text \<open>
  C6. For an outside set without the sentinel (the constructor inserts indices below
  \<open>nPts\<close> only, and nothing is ever added), \<open>get_farthest_pt\<close> succeeds exactly when some
  point of the outside set has a signed plane distance to the face strictly above
  \<open>PLANE_DIST_TOL\<close>. When it succeeds it returns a point of the outside set whose
  distance is above the tolerance and is exceeded by no point of the set; when it fails
  it returns the sentinel, and the turn of the main loop for a registered face returns
  the hull and the counter as they were, with the face taken off the queue.
\<close>

theorem get_farthest_pt_spec:
  assumes "- 1 \<notin> set (m_outsidePts s)"
  shows "(fst (get_farthest_pt K s f) \<longleftrightarrow>
            (\<exists>i\<in>set (m_outsidePts s).
               dbl_gt (face_plane_dist s f (pt_at s i)) (PLANE_DIST_TOL K))) \<and>
         (fst (get_farthest_pt K s f) \<longrightarrow>
            (\<exists>i\<in>set (m_outsidePts s). \<exists>d.
               get_farthest_pt K s f = (True, pt_at s i, i) \<and>
               face_plane_dist s f (pt_at s i) = Some d \<and> PLANE_DIST_TOL K < d \<and>
               (\<forall>j\<in>set (m_outsidePts s). \<not> dbl_gt (face_plane_dist s f (pt_at s j)) d))) \<and>
         (\<not> fst (get_farthest_pt K s f) \<longrightarrow>
            get_farthest_pt K s f = (False, Unset, - 1) \<and>
            (get_face s fi = Some f \<longrightarrow>
               compute_iter K (s, fi # faceQ, curFaceId) = Inr (s, faceQ, curFaceId)))"
proof -
  let ?init = "(PLANE_DIST_TOL K, - 1 :: size_t, Unset)"
  let ?r = "foldl (farthest_step s f) ?init (m_outsidePts s)"
  note F = farthest_fold[OF not_sentinel_not_vertex[OF assms, of f], where acc = "?init" and s = s]
  have res: "get_farthest_pt K s f = (fst (snd ?r) \<noteq> - 1, snd (snd ?r), fst (snd ?r))"
    by (simp add: get_farthest_pt_def split: prod.splits)
  from F have "?r = ?init \<or> (\<exists>i\<in>set (m_outsidePts s). \<exists>d. ?r = (d, i, pt_at s i) \<and>
              face_plane_dist s f (pt_at s i) = Some d \<and> PLANE_DIST_TOL K < d)"
    by simp
  then show ?thesis
  proof
    assume same: "?r = ?init"
    with F have none: "\<forall>j\<in>set (m_outsidePts s).
        \<not> dbl_gt (face_plane_dist s f (pt_at s j)) (PLANE_DIST_TOL K)"
      by simp
    from same res have g: "get_farthest_pt K s f = (False, Unset, - 1)" by simp
    then have "get_face s fi = Some f \<longrightarrow>
        compute_iter K (s, fi # faceQ, curFaceId) = Inr (s, faceQ, curFaceId)"
      by (simp add: compute_iter_def)
    with g none show ?thesis by simp
  next
    assume "\<exists>i\<in>set (m_outsidePts s). \<exists>d. ?r = (d, i, pt_at s i) \<and>
              face_plane_dist s f (pt_at s i) = Some d \<and> PLANE_DIST_TOL K < d"
    then obtain i d where i: "i \<in> set (m_outsidePts s)" and r: "?r = (d, i, pt_at s i)"
      and d: "face_plane_dist s f (pt_at s i) = Some d" "PLANE_DIST_TOL K < d" by blast
    from i assms have "i \<noteq> - 1" by auto
    with res r have g: "get_farthest_pt K s f = (True, pt_at s i, i)" by simp
    from F r have mx: "\<forall>j\<in>set (m_outsidePts s). \<not> dbl_gt (face_plane_dist s f (pt_at s j)) d"
      by simp
    from d have "dbl_gt (face_plane_dist s f (pt_at s i)) (PLANE_DIST_TOL K)"
      by (simp add: dbl_gt_def)
    with i have ex: "\<exists>i\<in>set (m_outsidePts s).
        dbl_gt (face_plane_dist s f (pt_at s i)) (PLANE_DIST_TOL K)"
      by blast
    from g have found: "fst (get_farthest_pt K s f)" by simp
    from i g d mx have best: "\<exists>i\<in>set (m_outsidePts s). \<exists>d.
        get_farthest_pt K s f = (True, pt_at s i, i) \<and>
        face_plane_dist s f (pt_at s i) = Some d \<and> PLANE_DIST_TOL K < d \<and>
        (\<forall>j\<in>set (m_outsidePts s). \<not> dbl_gt (face_plane_dist s f (pt_at s j)) d)"
      by blast
    from found ex best show ?thesis by blast
  qed
qed

theorem get_farthest_pt_spec_witness:
  "- 1 \<notin> set (m_outsidePts (bipyr_seeded [4])) \<and>
   fst (get_farthest_pt test_params (bipyr_seeded [4]) (bipyr_faces4 ! 0)) \<and>
   (\<exists>i\<in>set (m_outsidePts (bipyr_seeded [4])). \<exists>d.
      get_farthest_pt test_params (bipyr_seeded [4]) (bipyr_faces4 ! 0) =
        (True, pt_at (bipyr_seeded [4]) i, i) \<and>
      face_plane_dist (bipyr_seeded [4]) (bipyr_faces4 ! 0) (pt_at (bipyr_seeded [4]) i) = Some d \<and>
      PLANE_DIST_TOL test_params < d) \<and>
   \<not> fst (get_farthest_pt test_params (bipyr_grown []) (bipyr_faces4 ! 1)) \<and>
   compute_iter test_params (bipyr_grown [], [1, 2, 3, 4, 5, 6], 7) =
     Inr (bipyr_grown [], [2, 3, 4, 5, 6], 7)"
proof -
  have a: "- 1 \<notin> set (m_outsidePts (bipyr_seeded [4]))"
    by (simp add: bipyr_seeded_def)
  have b: "- 1 \<notin> set (m_outsidePts (bipyr_grown []))"
    by (simp add: bipyr_grown_def)
  have c: "fst (get_farthest_pt test_params (bipyr_seeded [4]) (bipyr_faces4 ! 0))"
    by (simp add: bipyr_farthest)
  have d: "\<not> fst (get_farthest_pt test_params (bipyr_grown []) (bipyr_faces4 ! 1))"
    by (simp add: get_farthest_pt_def bipyr_grown_def)
  have e: "get_face (bipyr_grown []) 1 = Some (bipyr_faces4 ! 1)"
    by (simp add: get_face_def bipyr_grown_def bipyr_faces4_def)
  from get_farthest_pt_spec[OF a, of test_params "bipyr_faces4 ! 0"] c
    get_farthest_pt_spec[OF b, of test_params "bipyr_faces4 ! 1" 1 "[2, 3, 4, 5, 6]" 7] d e a
  show ?thesis by blast
qed


section \<open>Face ids\<close>

lemma unat_plus_of_nat:
  "unat (cur :: 64 word) + k < 2 ^ 64 \<Longrightarrow> unat (cur + of_nat k) = unat cur + k"
proof -
  assume a: "unat cur + k < 2 ^ 64"
  then have k: "k < 2 ^ 64" by simp
  have "unat (of_nat k :: 64 word) = k" using k by (simp add: unat_of_nat)
  moreover have "unat (cur + of_nat k) = (unat cur + unat (of_nat k :: 64 word)) mod 2 ^ 64"
    by (simp add: unat_word_ariths)
  ultimately show ?thesis using a by simp
qed

lemma oriented_id: "face_id (oriented K s f) = face_id f"
  by (simp add: oriented_def face_with_normal_def flip_def)

lemma oriented_frame:
  "m_pts s' = m_pts s \<Longrightarrow> m_center s' = m_center s \<Longrightarrow> oriented K s' f = oriented K s f"
  by (simp add: oriented_def face_with_normal_def face_visible_def face_plane_dist_def pt_at_def)

lemma set_face_result:
  assumes "set_face K s f = Inr (s', f')"
  shows "f' = oriented K s f \<and> m_faces s' = AList.update (face_id f) f' (m_faces s)"
  using assms
  by (auto simp: set_face_def Let_def oriented_id simp del: add_face_edges.simps
        split: sum.splits dest!: add_face_edges_frame)

lemma new_faces_result:
  "new_faces K s cur fpi hes = Inr (s', cur', nfs) \<Longrightarrow>
     length nfs = length hes \<and> cur' = cur + of_nat (length hes) \<and>
     (\<forall>k<length hes. nfs ! k =
         oriented K s (hull_face (cur + of_nat k) fpi (pair_p (hes ! k)) (pair_q (hes ! k)))) \<and>
     m_faces s' = foldl (\<lambda>al f. AList.update (face_id f) f al) (m_faces s) nfs"
proof (induction hes arbitrary: s cur nfs)
  case Nil
  then show ?case by simp
next
  case (Cons he hes)
  from Cons.prems obtain s1 f1 nfs' where
    a: "set_face K s (hull_face cur fpi (pair_p he) (pair_q he)) = Inr (s1, f1)"
    and b: "new_faces K s1 (cur + 1) fpi hes = Inr (s', cur', nfs')"
    and c: "nfs = f1 # nfs'"
    by (auto split: sum.splits)
  from set_face_result[OF a] have f1: "f1 = oriented K s (hull_face cur fpi (pair_p he) (pair_q he))"
    and m1: "m_faces s1 = AList.update (face_id (hull_face cur fpi (pair_p he) (pair_q he))) f1 (m_faces s)"
    by blast+
  from set_face_frame[OF a] have o: "oriented K s1 g = oriented K s g" for g
    by (intro oriented_frame) simp_all
  from Cons.IH[OF b] have len: "length nfs' = length hes"
    and cur': "cur' = cur + 1 + of_nat (length hes)"
    and nth': "\<And>m. m < length hes \<Longrightarrow> nfs' ! m =
        oriented K s1 (hull_face (cur + 1 + of_nat m) fpi (pair_p (hes ! m)) (pair_q (hes ! m)))"
    and mf: "m_faces s' = foldl (\<lambda>al f. AList.update (face_id f) f al) (m_faces s1) nfs'"
    by blast+
  have id1: "face_id f1 = cur" unfolding f1 by (simp add: oriented_id hull_face_def)
  have g1: "length nfs = length (he # hes)" using c len by simp
  have g2: "cur' = cur + of_nat (length (he # hes))" using cur' by simp
  have g3: "nfs ! k = oriented K s (hull_face (cur + of_nat k) fpi
            (pair_p ((he # hes) ! k)) (pair_q ((he # hes) ! k)))" if "k < length (he # hes)" for k
  proof (cases k)
    case 0
    then show ?thesis unfolding c f1 by simp
  next
    case (Suc m)
    with that have "m < length hes" by simp
    from nth'[OF this] have "nfs' ! m = oriented K s (hull_face (cur + of_nat (Suc m)) fpi
            (pair_p (hes ! m)) (pair_q (hes ! m)))"
      unfolding o by (simp add: ac_simps)
    then show ?thesis unfolding c Suc by simp
  qed
  have g4: "m_faces s' = foldl (\<lambda>al f. AList.update (face_id f) f al) (m_faces s) nfs"
    unfolding mf c m1 using id1 by (simp add: hull_face_def)
  from g1 g2 g3 g4 show ?case by blast
qed

lemma map_of_fold_other:
  "i \<notin> face_id ` set fs \<Longrightarrow>
     map_of (foldl (\<lambda>al f. AList.update (face_id f) f al) al (fs :: hull_face list)) i = map_of al i"
  by (induction fs arbitrary: al) (simp_all add: update_conv')


lemma keys_fold:
  "fst ` set (foldl (\<lambda>al f. AList.update (face_id f) f al) al (fs :: hull_face list)) =
     fst ` set al \<union> face_id ` set fs"
proof (induction fs arbitrary: al)
  case Nil
  then show ?case by simp
next
  case (Cons g fs)
  have "fst ` set (AList.update (face_id g) g al) = insert (face_id g) (fst ` set al)"
    using dom_update[of "face_id g" g al] by (simp add: dom_map_of_conv_image_fst)
  with Cons.IH[of "AList.update (face_id g) g al"] show ?case by auto
qed

lemma adjacent_fold_length:
  "length (snd (foldl (adjacent_step K s farPt edges adj) (popQ, hes) [0, 1, 2])) \<le> length hes + 3"
  by (simp add: adjacent_step_def)

lemma flood_step_registry:
  assumes "flood_step K farPt s fi popQ popped hes edges adj = Inr (s', popQ', popped', hes', edges', adj')"
  shows "(\<forall>i. get_face s' i = None \<or> get_face s' i = get_face s i) \<and>
         length hes' + 3 * length (m_faces s') \<le> length hes + 3 * length (m_faces s)"
proof -
  from assms obtain pFace where
    p: "pop_face s fi edges adj = Inr (s', pFace, edges', adj')"
    and h: "if \<not> is_valid pFace then hes' = hes
            else hes' = snd (foldl (adjacent_step K s' farPt edges' adj') (popQ, hes) [0, 1, 2])"
    by (auto simp: flood_step_def split: sum.splits prod.splits if_splits)
  from pop_face_cases[OF p] show ?thesis
  proof
    assume "get_face s fi = None \<and> s' = s \<and> pFace = hull_face_default"
    with h is_valid_default show ?thesis by simp
  next
    assume a: "get_face s fi = Some pFace \<and> m_faces s' = AList.delete fi (m_faces s)"
    then have "length (m_faces s') < length (m_faces s)"
      by (simp add: get_face_def length_delete_less)
    moreover have "length hes' \<le> length hes + 3"
      using h adjacent_fold_length[of K s' farPt edges' adj' popQ hes] by (simp split: if_splits)
    moreover have "\<forall>i. get_face s' i = None \<or> get_face s' i = get_face s i"
      using a by (simp add: get_face_def delete_conv')
    ultimately show ?thesis by simp
  qed
qed

lemma flood_registry:
  "flood K farPt st = Inr (s', popped', hes') \<Longrightarrow>
     (\<forall>i. get_face s' i = None \<or> get_face s' i = get_face (fst st) i) \<and>
     length hes' + 3 * length (m_faces s') \<le>
       length (fst (snd (snd (snd st)))) + 3 * length (m_faces (fst st))"
proof (induction K farPt st rule: flood.induct)
  case (1 K farPt s popQ poppedFaces horizonEdges edges adjFaces)
  show ?case
  proof (cases popQ)
    case Nil
    with "1.prems" show ?thesis by (simp add: flood.simps)
  next
    case (Cons fi rest)
    with "1.prems" obtain st where
      a: "flood_step K farPt s fi rest poppedFaces horizonEdges edges adjFaces = Inr st"
      and b: "flood K farPt st = Inr (s', popped', hes')"
      by (auto simp: flood.simps split: sum.splits)
    obtain s1 q1 p1 h1 e1 a1 where st: "st = (s1, q1, p1, h1, e1, a1)"
      by (cases st)
    from flood_step_registry[OF a[unfolded st]] have
      r1: "\<forall>i. get_face s1 i = None \<or> get_face s1 i = get_face s i"
      and l1: "length h1 + 3 * length (m_faces s1) \<le> length horizonEdges + 3 * length (m_faces s)"
      by blast+
    from "1.IH"[OF Cons a b] st have
      r2: "\<forall>i. get_face s' i = None \<or> get_face s' i = get_face s1 i"
      and l2: "length hes' + 3 * length (m_faces s') \<le> length h1 + 3 * length (m_faces s1)"
      by simp_all
    have "\<forall>i. get_face s' i = None \<or> get_face s' i = get_face s i"
    proof
      fix i
      from r1 r2 show "get_face s' i = None \<or> get_face s' i = get_face s i"
        by (metis)
    qed
    with l1 l2 show ?thesis by simp
  qed
qed

lemma get_face_keys: "get_face s i = None \<longleftrightarrow> i \<notin> fst ` set (m_faces s)"
  by (simp add: get_face_def map_of_eq_None_iff)

lemma update_exterior_faces: "m_faces (update_exterior_pts K s nf pf) = m_faces s"
  by (simp add: update_exterior_pts_def split: prod.splits)

lemma word_less_of_unat: "unat (a :: size_t) < unat b \<Longrightarrow> a < b"
  by (simp add: word_less_nat_alt)

lemma new_faces_ids:
  assumes "new_faces K s cur fpi hes = Inr (s', cur', nfs)"
  shows "map face_id nfs = map (\<lambda>k. cur + of_nat k) [0..<length hes]"
proof (rule nth_equalityI)
  from new_faces_result[OF assms] show "length (map face_id nfs) =
      length (map (\<lambda>k. cur + of_nat k) [0..<length hes])" by simp
next
  fix k assume "k < length (map face_id nfs)"
  with new_faces_result[OF assms] have k: "k < length hes" by simp
  with new_faces_result[OF assms] have "nfs ! k =
      oriented K s (hull_face (cur + of_nat k) fpi (pair_p (hes ! k)) (pair_q (hes ! k)))"
    by blast
  then have "face_id (nfs ! k) = cur + of_nat k"
    by (simp add: oriented_id hull_face_def)
  with k new_faces_result[OF assms]
  show "map face_id nfs ! k = map (\<lambda>k. cur + of_nat k) [0..<length hes] ! k"
    by simp
qed


lemma set_tl_subset: "x \<in> set (tl xs) \<Longrightarrow> x \<in> set xs"
  by (cases xs) simp_all

lemma set_simplex_faces_keys:
  "set_simplex_faces K s fs = Inr (s', fs') \<Longrightarrow>
     fst ` set (m_faces s') \<subseteq> fst ` set (m_faces s) \<union> face_id ` set fs"
proof (induction fs arbitrary: s s' fs')
  case Nil
  then show ?case by simp
next
  case (Cons f fs)
  show ?case
  proof (cases "is_valid f")
    case False
    with Cons.prems obtain fs'' where "set_simplex_faces K s fs = Inr (s', fs'')"
      by (auto split: sum.splits)
    from Cons.IH[OF this] show ?thesis by auto
  next
    case True
    with Cons.prems obtain s1 f1 fs'' where
      a: "set_face K s f = Inr (s1, f1)" and b: "set_simplex_faces K s1 fs = Inr (s', fs'')"
      by (auto split: sum.splits)
    from set_face_result[OF a] have "m_faces s1 = AList.update (face_id f) f1 (m_faces s)"
      by blast
    then have "fst ` set (m_faces s1) = insert (face_id f) (fst ` set (m_faces s))"
      using dom_update[of "face_id f" f1 "m_faces s"] by (simp add: dom_map_of_conv_image_fst)
    with Cons.IH[OF b] show ?thesis by auto
  qed
qed

lemma compute_start_ids:
  assumes "compute_start K (convex_hull_init coords nPts) = Inr (s1, q1, c1)"
  shows "c1 = 4 \<and> fst ` set (m_faces s1) \<subseteq> {0, 1, 2, 3} \<and> set q1 \<subseteq> {0, 1, 2, 3}"
proof -
  let ?s = "convex_hull_init coords nPts"
  from assms obtain best s2 simplex where
    a: "set_simplex_faces K (?s\<lparr>m_center := simplex_center ?s best\<rparr>) (simplex_faces 0 best) =
          Inr (s2, simplex)"
    and b: "m_faces s1 = m_faces s2" and c: "c1 = 4" and q: "q1 = map fst (m_faces s1)"
    by (auto simp: compute_start_def create_initial_simplex_def split: sum.splits)
  from set_simplex_faces_keys[OF a] have "fst ` set (m_faces s2) \<subseteq> {0, 1, 2, 3}"
    by (auto simp: init_fields simplex_faces_def hull_face_def)
  with b c q show ?thesis by auto
qed

text \<open>
  C10. Face ids come from one counter. The loop starts with the counter at 4 and every
  id of the registry and of the queue below it. As long as the counter does not wrap
  (it is at least three times the size of the registry away from \<open>2 ^ 64\<close>), a turn of
  the main loop leaves the counter where it was or moves it up by the number \<open>n\<close> of new
  faces; the new faces take the ids \<open>cur, cur + 1, ...\<close>, which were not registered
  before and are appended to the queue in that order; every id of the registry and of
  the queue stays below the counter; and an id below the old counter names either no
  face or the face it named before the turn.
\<close>

theorem face_ids_never_reused:
  assumes step: "compute_iter K (s, faceQ, cur) = Inr (s', faceQ', cur')"
    and inv: "\<forall>i\<in>fst ` set (m_faces s) \<union> set faceQ. i < cur"
    and nowrap: "unat cur + 3 * length (m_faces s) < 2 ^ 64"
  shows "(\<exists>n. unat cur' = unat cur + n \<and>
              faceQ' = tl faceQ @ map (\<lambda>k. cur + of_nat k) [0..<n] \<and>
              (\<forall>k<n. get_face s (cur + of_nat k) = None \<and> get_face s' (cur + of_nat k) \<noteq> None)) \<and>
         (\<forall>i\<in>fst ` set (m_faces s') \<union> set faceQ'. i < cur') \<and>
         (\<forall>i. i < cur \<longrightarrow> get_face s' i = None \<or> get_face s' i = get_face s i) \<and>
         (compute_start K (convex_hull_init coords nPts) = Inr (s1, q1, c1) \<longrightarrow>
            c1 = 4 \<and> (\<forall>i\<in>fst ` set (m_faces s1) \<union> set q1. i < c1))"
proof -
  have start: "compute_start K (convex_hull_init coords nPts) = Inr (s1, q1, c1) \<longrightarrow>
            c1 = 4 \<and> (\<forall>i\<in>fst ` set (m_faces s1) \<union> set q1. i < c1)"
  proof
    assume "compute_start K (convex_hull_init coords nPts) = Inr (s1, q1, c1)"
    from compute_start_ids[OF this] have c: "c1 = 4"
      and k: "fst ` set (m_faces s1) \<union> set q1 \<subseteq> {0, 1, 2, 3}" by auto
    have "\<forall>i\<in>{0, 1, 2, 3 :: size_t}. i < 4" by (simp add: word_less_nat_alt)
    with c k show "c1 = 4 \<and> (\<forall>i\<in>fst ` set (m_faces s1) \<union> set q1. i < c1)" by blast
  qed
  have old_none: "get_face s i = None" if "cur \<le> i" for i
  proof (rule ccontr)
    assume "get_face s i \<noteq> None"
    then have "i \<in> fst ` set (m_faces s)" by (simp add: get_face_keys)
    with inv have "i < cur" by blast
    with that show False by simp
  qed
  have idle: ?thesis if same: "s' = s" "cur' = cur" "faceQ' = tl faceQ"
  proof -
    have "unat cur' = unat cur + 0 \<and> faceQ' = tl faceQ @ map (\<lambda>k. cur + of_nat k) [0..<0] \<and>
        (\<forall>k<0. get_face s (cur + of_nat k) = None \<and> get_face s' (cur + of_nat k) \<noteq> None)"
      using same by simp
    then have a: "\<exists>n. unat cur' = unat cur + n \<and>
              faceQ' = tl faceQ @ map (\<lambda>k. cur + of_nat k) [0..<n] \<and>
              (\<forall>k<n. get_face s (cur + of_nat k) = None \<and> get_face s' (cur + of_nat k) \<noteq> None)"
      by blast
    have b: "\<forall>i\<in>fst ` set (m_faces s') \<union> set faceQ'. i < cur'"
      using inv same by (auto dest: set_tl_subset)
    from a b same start show ?thesis by blast
  qed
  show ?thesis
  proof (cases faceQ)
    case Nil
    with step have "s' = s" "cur' = cur" "faceQ' = tl faceQ" by (simp_all add: compute_iter_def)
    then show ?thesis by (rule idle)
  next
    case (Cons fi rest)
    show ?thesis
    proof (cases "get_face s fi")
      case None
      with step Cons have "s' = s" "cur' = cur" "faceQ' = tl faceQ"
        by (simp_all add: compute_iter_def)
      then show ?thesis by (rule idle)
    next
      case (Some curFace)
      obtain found farPt fpi where g: "get_farthest_pt K s curFace = (found, farPt, fpi)"
        by (cases "get_farthest_pt K s curFace")
      show ?thesis
      proof (cases found)
        case False
        with step Cons Some g have "s' = s" "cur' = cur" "faceQ' = tl faceQ"
          by (simp_all add: compute_iter_def)
        then show ?thesis by (rule idle)
      next
        case True
        with step Cons Some g obtain s2 popped hes s3 nfs where
          fl: "flood K farPt (s, [fi], [], [], replicate 3 index_pair_default,
                replicate 3 hull_face_default) = Inr (s2, popped, hes)"
          and nf: "new_faces K s2 cur fpi hes = Inr (s3, cur', nfs)"
          and s': "s' = update_exterior_pts K s3 nfs popped"
          and q': "faceQ' = rest @ map face_id nfs"
          by (auto simp: compute_iter_def split: sum.splits)
        let ?n = "length hes"
        let ?ids = "map (\<lambda>k. cur + of_nat k) [0..<?n]"
        from flood_registry[OF fl] have
          reg2: "\<forall>i. get_face s2 i = None \<or> get_face s2 i = get_face s i"
          and len: "?n + 3 * length (m_faces s2) \<le> 3 * length (m_faces s)"
          by simp_all
        from len nowrap have bound: "unat cur + ?n < 2 ^ 64" by linarith
        note R = new_faces_result[OF nf]
        have ids: "map face_id nfs = ?ids" by (rule new_faces_ids[OF nf])
        have cur': "unat cur' = unat cur + ?n"
          using R unat_plus_of_nat[OF bound] by simp
        have unat_id: "unat (cur + of_nat k) = unat cur + k" if "k < ?n" for k
        proof -
          from that have "unat cur + k < unat cur + ?n" by simp
          with bound have "unat cur + k < 2 ^ 64" by (blast intro: less_trans)
          then show ?thesis by (rule unat_plus_of_nat)
        qed
        have id_ge: "cur \<le> cur + of_nat k" "cur + of_nat k < cur'" if "k < ?n" for k
          using unat_id[OF that] that cur' by (simp_all add: word_le_nat_alt word_less_nat_alt)
        have mf': "m_faces s' = foldl (\<lambda>al f. AList.update (face_id f) f al) (m_faces s2) nfs"
          using R s' by (simp add: update_exterior_faces)
        have keys': "fst ` set (m_faces s') = fst ` set (m_faces s2) \<union> set ?ids"
          unfolding mf' keys_fold using ids by (metis list.set_map)
        have keys2: "fst ` set (m_faces s2) \<subseteq> fst ` set (m_faces s)"
          using reg2 by (metis get_face_keys subsetI)
        have new_reg: "get_face s (cur + of_nat k) = None \<and> get_face s' (cur + of_nat k) \<noteq> None"
          if "k < ?n" for k
        proof -
          have "cur + of_nat k \<in> set ?ids" using that by simp
          then have "cur + of_nat k \<in> fst ` set (m_faces s')" unfolding keys' by blast
          then have "get_face s' (cur + of_nat k) \<noteq> None" by (simp add: get_face_keys)
          with old_none[OF id_ge(1)[OF that]] show ?thesis by simp
        qed
        have part1: "\<exists>n. unat cur' = unat cur + n \<and>
              faceQ' = tl faceQ @ map (\<lambda>k. cur + of_nat k) [0..<n] \<and>
              (\<forall>k<n. get_face s (cur + of_nat k) = None \<and> get_face s' (cur + of_nat k) \<noteq> None)"
          using cur' q' ids Cons new_reg by (intro exI[of _ ?n]) simp
        have le: "cur \<le> cur'" using cur' by (simp add: word_le_nat_alt)
        have part2: "\<forall>i\<in>fst ` set (m_faces s') \<union> set faceQ'. i < cur'"
        proof
          fix i assume "i \<in> fst ` set (m_faces s') \<union> set faceQ'"
          moreover have "set faceQ' = set rest \<union> set ?ids"
            unfolding q' ids by simp
          ultimately consider "i \<in> fst ` set (m_faces s)" | "i \<in> set rest" | "i \<in> set ?ids"
            using keys' keys2 by blast
          then show "i < cur'"
          proof cases
            case 1
            with inv have "i < cur" by blast
            with le show ?thesis by simp
          next
            case 2
            with inv Cons have "i < cur" by simp
            with le show ?thesis by simp
          next
            case 3
            then obtain k where "k < ?n" "i = cur + of_nat k" by auto
            with id_ge(2) show ?thesis by simp
          qed
        qed
        have part3: "\<forall>i. i < cur \<longrightarrow> get_face s' i = None \<or> get_face s' i = get_face s i"
        proof (intro allI impI)
          fix i assume i: "i < cur"
          have "i \<notin> face_id ` set nfs"
          proof
            assume "i \<in> face_id ` set nfs"
            then have "i \<in> set ?ids" using ids by (metis list.set_map)
            then obtain k where k: "k < ?n" "i = cur + of_nat k" by auto
            from id_ge(1)[OF k(1)] k(2) have "cur \<le> i" by simp
            with i show False by simp
          qed
          then have "get_face s' i = get_face s2 i"
            unfolding get_face_def mf' by (rule map_of_fold_other)
          with reg2 show "get_face s' i = None \<or> get_face s' i = get_face s i" by metis
        qed
        from part1 part2 part3 start show ?thesis by blast
      qed
    qed
  qed
qed

theorem face_ids_never_reused_witness:
  "(\<exists>n. unat (7 :: size_t) = unat (4 :: size_t) + n \<and>
        [1, 2, 3, 4, 5, 6] = tl [0, 1, 2, 3] @ map (\<lambda>k. (4 :: size_t) + of_nat k) [0..<n] \<and>
        (\<forall>k<n. get_face (bipyr_seeded [4]) (4 + of_nat k) = None \<and>
               get_face (bipyr_grown []) (4 + of_nat k) \<noteq> None)) \<and>
   compute_iter test_params (bipyr_seeded [4], [0, 1, 2, 3], 4) =
     Inr (bipyr_grown [], [1, 2, 3, 4, 5, 6], 7) \<and>
   compute_start test_params (convex_hull_init bipyr_coords 5) =
     Inr (bipyr_seeded [4], [0, 1, 2, 3], 4)"
proof -
  have inv: "\<forall>i\<in>fst ` set (m_faces (bipyr_seeded [4])) \<union> set [0, 1, 2, 3]. i < (4 :: size_t)"
    by (simp add: bipyr_seeded_def bipyr_faces4_def word_less_nat_alt)
  have nowrap: "unat (4 :: size_t) + 3 * length (m_faces (bipyr_seeded [4])) < 2 ^ 64"
    by (simp add: bipyr_seeded_def bipyr_faces4_def)
  from face_ids_never_reused[OF bipyr_turn1 inv nowrap] bipyr_turn1 bipyr_start
  show ?thesis by blast
qed

section \<open>Orientation of the new faces\<close>




end
